theory Spec2Isabelle
  imports Complex_Main "HOL-Library.Log_Nat" "HOL-Library.Monad_Syntax"
begin

section \<open>Python values used by the airline dashboard\<close>

text \<open>
  The repository is Python. Exceptions are values of the type \<open>error\<close>; a function that
  may raise returns \<open>error + 'a\<close> with \<open>Inl\<close> for the exception. Python's integers are
  unbounded and are \<open>int\<close>. Nothing of the standard output (the \<^verbatim>\<open>print\<close> calls of
  \<^verbatim>\<open>Api_Integration.py\<close>) is modelled.
\<close>

datatype error =
    ValueError | ZeroDivisionError | OverflowError | TypeError | KeyError | IndexError
  | JSONDecodeError | RequestException

definition bind_err :: "error + 'a \<Rightarrow> ('a \<Rightarrow> error + 'b) \<Rightarrow> error + 'b" where
  "bind_err m f = (case m of Inl e \<Rightarrow> Inl e | Inr x \<Rightarrow> f x)"

fun map_err :: "('a \<Rightarrow> error + 'b) \<Rightarrow> 'a list \<Rightarrow> error + 'b list" where
  "map_err f [] = Inr []"
| "map_err f (x # xs) =
     bind_err (f x) (\<lambda>y. bind_err (map_err f xs) (\<lambda>ys. Inr (y # ys)))"

subsection \<open>Binary64 floating point\<close>

text \<open>
  A finite Python \<^verbatim>\<open>float\<close> is kept as the rational number it denotes. \<open>fl\<close> rounds a
  rational to the nearest binary64 value, ties to even: 53 significant bits, and below
  \<open>2^-1022\<close> the fixed spacing \<open>2^-1074\<close> of the subnormal numbers. The exponent is not
  bounded above in \<open>fl\<close>; the operations that can overflow test the rounded value against
  \<open>2^1024\<close> themselves. Negative zero is not distinguished from zero.
\<close>

definition pow2 :: "int \<Rightarrow> rat" where
  "pow2 e = (if 0 \<le> e then 2 ^ nat e else 1 / 2 ^ nat (- e))"

definition round_half_even :: "rat \<Rightarrow> int" where
  "round_half_even x =
     (let f = \<lfloor>x\<rfloor>; d = x - of_int f
      in if d < 1 / 2 then f else if 1 / 2 < d then f + 1
         else if even f then f else f + 1)"

text \<open>\<open>binade x\<close> is the exponent \<open>e\<close> with \<open>2^e \<le> x < 2^(e+1)\<close>, for positive \<open>x\<close>.\<close>

definition binade :: "rat \<Rightarrow> int" where
  "binade x =
     (let e0 = bitlen (fst (quotient_of x)) - bitlen (snd (quotient_of x))
      in if pow2 e0 \<le> x then e0 else e0 - 1)"

definition fl :: "rat \<Rightarrow> rat" where
  "fl x =
     (if x = 0 then 0
      else let s = max (binade \<bar>x\<bar> - 52) (- 1074);
               m = round_half_even (\<bar>x\<bar> / pow2 s)
           in sgn x * of_int m * pow2 s)"

text \<open>
  \<^verbatim>\<open>a / b\<close> on two integers: the quotient correctly rounded, \<^verbatim>\<open>ZeroDivisionError\<close> for a
  zero divisor and \<^verbatim>\<open>OverflowError\<close> when the rounded quotient is beyond the largest float.
\<close>

definition py_truediv :: "int \<Rightarrow> int \<Rightarrow> error + rat" where
  "py_truediv a b =
     (if b = 0 then Inl ZeroDivisionError
      else let q = fl (of_int a / of_int b)
           in if 2 ^ 1024 \<le> \<bar>q\<bar> then Inl OverflowError else Inr q)"

text \<open>
  \<^verbatim>\<open>round(x, n)\<close> on a float rounds the exact value of \<open>x\<close> to \<open>n\<close> decimals, ties to
  even, and returns the float nearest to that decimal.
\<close>

definition py_round :: "rat \<Rightarrow> nat \<Rightarrow> rat" where
  "py_round x n = fl (of_int (round_half_even (x * 10 ^ n)) / 10 ^ n)"

text \<open>\<^verbatim>\<open>int(x)\<close> on a float truncates towards zero.\<close>

definition py_int :: "rat \<Rightarrow> int" where
  "py_int x = (if 0 \<le> x then \<lfloor>x\<rfloor> else \<lceil>x\<rceil>)"

text \<open>A number that is either a Python \<^verbatim>\<open>int\<close> or a finite Python \<^verbatim>\<open>float\<close>.\<close>

datatype pynum = PyInt int | PyFloat rat

fun num_value :: "pynum \<Rightarrow> rat" where
  "num_value (PyInt i) = of_int i"
| "num_value (PyFloat x) = x"

subsection \<open>Rendering numbers\<close>

definition digit_char :: "nat \<Rightarrow> char" where
  "digit_char d = ''0123456789'' ! (d mod 10)"

fun digits :: "nat \<Rightarrow> string" where
  "digits n = (if n < 10 then [digit_char n] else digits (n div 10) @ [digit_char n])"

declare digits.simps [simp del]

text \<open>\<^verbatim>\<open>str(i)\<close> of an integer.\<close>

definition str_int :: "int \<Rightarrow> string" where
  "str_int i = (if i < 0 then CHR ''-'' # digits (nat (- i)) else digits (nat i))"

text \<open>
  \<^verbatim>\<open>format(x, '.nf')\<close> of a finite float: the exact value rounded to \<open>n\<close> decimals, ties
  to even, at least one digit before the point, no point when \<open>n = 0\<close>.
\<close>

definition fmt_f :: "nat \<Rightarrow> rat \<Rightarrow> string" where
  "fmt_f n x =
     (let m = nat (round_half_even (\<bar>x\<bar> * 10 ^ n));
          ds = digits m;
          padded = replicate (Suc n - length ds) CHR ''0'' @ ds;
          whole = take (length padded - n) padded;
          frac = drop (length padded - n) padded
      in (if x < 0 then ''-'' else '''') @ whole @ (if n = 0 then '''' else CHR ''.'' # frac))"

section \<open>The data processor of app.py\<close>

text \<open>
  A flight is the dictionary that \<^verbatim>\<open>generate_sample_data\<close> builds, as a record of its
  eight keys. The \<^verbatim>\<open>date\<close> cell holds the \<^verbatim>\<open>%Y-%m-%d\<close> rendering of a calendar date; the
  model keeps the date itself, as its proleptic Gregorian ordinal (\<^verbatim>\<open>date.toordinal()\<close>),
  so \<^verbatim>\<open>strptime\<close> of the cell gives that date back.
\<close>

record flight =
  origin :: string
  destination :: string
  price :: int
  date :: int
  demand_score :: int
  availability :: int
  is_domestic :: bool
  airline :: string

text \<open>The instance state that \<^verbatim>\<open>__init__\<close> sets up: an empty list and two empty dictionaries.\<close>

record processor =
  routes_data :: "flight list"
  price_trends :: "(string \<times> pynum) list"
  demand_patterns :: "(string \<times> pynum) list"

definition init_processor :: processor where
  "init_processor = \<lparr>routes_data = [], price_trends = [], demand_patterns = []\<rparr>"

text \<open>\<^verbatim>\<open>date.weekday()\<close>: Monday is 0 and Sunday is 6; ordinal 1 is a Monday.\<close>

definition weekday :: "int \<Rightarrow> int" where
  "weekday d = (d + 6) mod 7"

definition weekday_name :: "int \<Rightarrow> string" where
  "weekday_name d =
     [''Monday'', ''Tuesday'', ''Wednesday'', ''Thursday'', ''Friday'', ''Saturday'', ''Sunday'']
       ! nat (weekday d)"

text \<open>
  \<^verbatim>\<open>d[k].append(v)\<close> on a \<^verbatim>\<open>defaultdict(list)\<close>: a dictionary in insertion order, as an
  association list with one entry per key.
\<close>

fun dict_append :: "'k \<Rightarrow> 'v \<Rightarrow> ('k \<times> 'v list) list \<Rightarrow> ('k \<times> 'v list) list" where
  "dict_append k v [] = [(k, [v])]"
| "dict_append k v ((k', vs) # kvs) =
     (if k = k' then (k', vs @ [v]) # kvs else (k', vs) # dict_append k v kvs)"

subsection \<open>generate_sample_data\<close>

text \<open>
  The random module is an oracle: a list of raw draws, one consumed by each call of
  \<^verbatim>\<open>random.choice\<close> or \<^verbatim>\<open>random.randint\<close>, which maps it into the requested range. A
  generator whose draws run out gives no result (\<open>None\<close>); this also bounds the loop that
  redraws the destination, which has no bound in the source. The clock is the ordinal
  \<open>today\<close> of \<^verbatim>\<open>datetime.now()\<close>, taken more than 90 days before \<^verbatim>\<open>date.max\<close>.
\<close>

type_synonym rng = "nat list"

definition choice :: "'a list \<Rightarrow> rng \<Rightarrow> ('a \<times> rng) option" where
  "choice xs g =
     (case g of [] \<Rightarrow> None
      | r # g' \<Rightarrow> if xs = [] then None else Some (xs ! (r mod length xs), g'))"

definition randint :: "int \<Rightarrow> int \<Rightarrow> rng \<Rightarrow> (int \<times> rng) option" where
  "randint a b g =
     (case g of [] \<Rightarrow> None
      | r # g' \<Rightarrow> if b < a then None else Some (a + int (r mod nat (b - a + 1)), g'))"

definition cities :: "string list" where
  "cities =
     [''Sydney'', ''Melbourne'', ''Brisbane'', ''Perth'', ''Adelaide'',
      ''Gold Coast'', ''Cairns'', ''Darwin'', ''Hobart'', ''Canberra'',
      ''Singapore'', ''Kuala Lumpur'', ''Bangkok'', ''Tokyo'', ''Seoul'',
      ''Los Angeles'', ''London'', ''Dubai'', ''Hong Kong'', ''Bali'']"

definition airlines :: "string list" where
  "airlines = [''Qantas'', ''Jetstar'', ''Virgin Australia'', ''Tiger Air'', ''Singapore Airlines'']"

text \<open>\<^verbatim>\<open>while destination == origin: destination = random.choice(cities)\<close>\<close>

fun redraw :: "string \<Rightarrow> string \<Rightarrow> rng \<Rightarrow> (string \<times> rng) option" where
  "redraw orig dest [] = (if dest = orig then None else Some (dest, []))"
| "redraw orig dest (r # g) =
     (if dest = orig then redraw orig (cities ! (r mod length cities)) g
      else Some (dest, r # g))"

text \<open>The float literal \<^verbatim>\<open>1.2\<close> is the binary64 value nearest to \<open>6/5\<close>.\<close>

definition weekend_multiplier :: "int \<Rightarrow> rat" where
  "weekend_multiplier flight_date = (if 5 \<le> weekday flight_date then fl (12 / 10) else 1)"

text \<open>
  \<^verbatim>\<open>int(base_price * weekend_multiplier)\<close>: the integer is converted to a float, the
  product is rounded to a float, and \<^verbatim>\<open>int\<close> truncates it.
\<close>

definition stored_price :: "int \<Rightarrow> int \<Rightarrow> int" where
  "stored_price base_price flight_date =
     py_int (fl (fl (of_int base_price) * weekend_multiplier flight_date))"

text \<open>One pass of the loop body, from the draws it makes, in the order it makes them.\<close>

definition next_route :: "int \<Rightarrow> rng \<Rightarrow> (flight \<times> rng) option" where
  "next_route today g0 = do {
     (orig, g1) \<leftarrow> choice (take 10 cities) g0;
     (dest0, g2) \<leftarrow> choice cities g1;
     (dest, g3) \<leftarrow> redraw orig dest0 g2;
     let domestic = (dest \<in> set (take 10 cities));
     (base_price, g4) \<leftarrow> (if domestic then randint 150 400 g3 else randint 800 2500 g3);
     (date_offset, g5) \<leftarrow> randint 1 90 g4;
     let flight_date = today + date_offset;
     (demand, g6) \<leftarrow> randint 30 100 g5;
     (avail, g7) \<leftarrow> randint 10 200 g6;
     (line, g8) \<leftarrow> choice airlines g7;
     Some (\<lparr>origin = orig, destination = dest,
             price = stored_price base_price flight_date,
             date = flight_date, demand_score = demand, availability = avail,
             is_domestic = domestic, airline = line\<rparr>, g8)
   }"

fun gen_routes :: "nat \<Rightarrow> int \<Rightarrow> rng \<Rightarrow> (flight list \<times> rng) option" where
  "gen_routes 0 today g = Some ([], g)"
| "gen_routes (Suc n) today g = do {
     (r, g1) \<leftarrow> next_route today g;
     (rs, g2) \<leftarrow> gen_routes n today g1;
     Some (r # rs, g2)
   }"

text \<open>The method returns the instance as it leaves it, then its result.\<close>

definition generate_sample_data ::
  "processor \<Rightarrow> int \<Rightarrow> rng \<Rightarrow> processor \<times> (flight list \<times> rng) option" where
  "generate_sample_data self today g = (self, gen_routes 100 today g)"

subsection \<open>analyze_popular_routes\<close>

record route_entry =
  route :: string
  avg_demand :: rat
  flight_count :: nat

text \<open>The separator of the route key is a space, U+2192 in UTF-8, and a space.\<close>

definition route_key :: "flight \<Rightarrow> string" where
  "route_key f = origin f @ [CHR '' '', CHR 0xE2, CHR 0x86, CHR 0x92, CHR '' ''] @ destination f"

definition route_demand :: "flight list \<Rightarrow> (string \<times> int list) list" where
  "route_demand data = foldl (\<lambda>d f. dict_append (route_key f) (demand_score f) d) [] data"

definition route_entry_of :: "string \<times> int list \<Rightarrow> error + route_entry" where
  "route_entry_of kv =
     bind_err (py_truediv (sum_list (snd kv)) (int (length (snd kv))))
       (\<lambda>avg. Inr \<lparr>route = fst kv, avg_demand = py_round avg 1,
                    flight_count = length (snd kv)\<rparr>)"

text \<open>
  \<^verbatim>\<open>sorted(xs, key=k, reverse=True)\<close> is the stable sort into non-increasing keys; the
  stable insertion sort on the negated key gives the same list.
\<close>

definition sorted_reverse :: "('a \<Rightarrow> rat) \<Rightarrow> 'a list \<Rightarrow> 'a list" where
  "sorted_reverse k xs = sort_key (\<lambda>x. - k x) xs"

definition analyze_popular_routes ::
  "processor \<Rightarrow> flight list \<Rightarrow> processor \<times> (error + route_entry list)" where
  "analyze_popular_routes self data =
     (self, bind_err (map_err route_entry_of (route_demand data))
              (\<lambda>popular_routes. Inr (take 10 (sorted_reverse avg_demand popular_routes))))"

subsection \<open>analyze_price_trends\<close>

record price_summary =
  domestic_avg :: pynum
  international_avg :: pynum
  domestic_range :: string
  international_range :: string

text \<open>\<^verbatim>\<open>round(sum(ps) / len(ps) if ps else 0, 2)\<close>; rounding the integer 0 gives the integer 0.\<close>

definition rounded_avg :: "int list \<Rightarrow> error + pynum" where
  "rounded_avg ps =
     (if ps \<noteq> [] then
        bind_err (py_truediv (sum_list ps) (int (length ps))) (\<lambda>q. Inr (PyFloat (py_round q 2)))
      else Inr (PyInt 0))"

definition range_str :: "int list \<Rightarrow> string" where
  "range_str ps =
     (if ps \<noteq> [] then ''$'' @ str_int (Min (set ps)) @ '' - $'' @ str_int (Max (set ps))
      else ''N/A'')"

definition analyze_price_trends ::
  "processor \<Rightarrow> flight list \<Rightarrow> processor \<times> (error + price_summary)" where
  "analyze_price_trends self data =
     (let domestic_prices = map price (filter is_domestic data);
          international_prices = map price (filter (\<lambda>f. \<not> is_domestic f) data)
      in (self,
          bind_err (rounded_avg domestic_prices) (\<lambda>da.
          bind_err (rounded_avg international_prices) (\<lambda>ia.
          Inr \<lparr>domestic_avg = da, international_avg = ia,
               domestic_range = range_str domestic_prices,
               international_range = range_str international_prices\<rparr>))))"

subsection \<open>get_demand_insights\<close>

definition weekday_demand :: "flight list \<Rightarrow> (string \<times> int list) list" where
  "weekday_demand data =
     foldl (\<lambda>d f. dict_append (weekday_name (date f)) (demand_score f) d) [] data"

definition avg_of_day :: "string \<times> int list \<Rightarrow> error + string \<times> rat" where
  "avg_of_day kv =
     bind_err (py_truediv (sum_list (snd kv)) (int (length (snd kv)))) (\<lambda>a. Inr (fst kv, a))"

text \<open>
  \<^verbatim>\<open>max(d, key=d.get)\<close> over the keys of a dictionary: \<^verbatim>\<open>ValueError\<close> on an empty one,
  otherwise the first key whose value no later key exceeds.
\<close>

fun max_key :: "('k \<times> rat) list \<Rightarrow> error + 'k \<times> rat" where
  "max_key [] = Inl ValueError"
| "max_key (kv # kvs) = Inr (foldl (\<lambda>best x. if snd best < snd x then x else best) kv kvs)"

definition mean_demand :: "flight list \<Rightarrow> error + rat" where
  "mean_demand fs = py_truediv (sum_list (map demand_score fs)) (int (length fs))"

definition get_demand_insights ::
  "processor \<Rightarrow> flight list \<Rightarrow> processor \<times> (error + string list)" where
  "get_demand_insights self data =
     (self,
      bind_err (map_err avg_of_day (weekday_demand data)) (\<lambda>avg_demand_by_day.
      bind_err (max_key avg_demand_by_day) (\<lambda>peak.
      let insights = [''Peak demand occurs on '' @ fst peak
                        @ ''s with an average demand score of '' @ fmt_f 1 (snd peak)];
          domestic_flights = filter is_domestic data;
          international_flights = filter (\<lambda>f. \<not> is_domestic f) data
      in if domestic_flights \<noteq> [] \<and> international_flights \<noteq> [] then
           bind_err (mean_demand domestic_flights) (\<lambda>dom_avg_demand.
           bind_err (mean_demand international_flights) (\<lambda>intl_avg_demand.
           if intl_avg_demand < dom_avg_demand then
             Inr (insights @ [''Domestic routes show higher demand (''
                    @ fmt_f 1 dom_avg_demand @ '') compared to international routes (''
                    @ fmt_f 1 intl_avg_demand @ '')''])
           else
             Inr (insights @ [''International routes show higher demand (''
                    @ fmt_f 1 intl_avg_demand @ '') compared to domestic routes (''
                    @ fmt_f 1 dom_avg_demand @ '')''])))
         else Inr insights)))"

subsection \<open>Notions used to state the properties\<close>

text \<open>The position of the first occurrence of an element in a list.\<close>

fun index_of :: "'a \<Rightarrow> 'a list \<Rightarrow> nat" where
  "index_of x [] = 0"
| "index_of x (y # ys) = (if x = y then 0 else Suc (index_of x ys))"

text \<open>
  The place of a route key in the iteration order of the dictionary \<^verbatim>\<open>route_demand\<close>
  that \<^verbatim>\<open>analyze_popular_routes\<close> builds.
\<close>

definition group_position :: "flight list \<Rightarrow> string \<Rightarrow> nat" where
  "group_position data r = index_of r (map fst (route_demand data))"

text \<open>
  The values that one pass of the loop of \<^verbatim>\<open>generate_sample_data\<close> draws, in the order
  in which the source draws them, and the draws of \<open>n\<close> passes from a given state of the
  random module.
\<close>

record route_draws =
  origin_draw :: string
  destination_draw :: string
  base_price_draw :: int
  date_offset_draw :: int
  demand_draw :: int
  availability_draw :: int
  airline_draw :: string

definition draw_route :: "rng \<Rightarrow> (route_draws \<times> rng) option" where
  "draw_route g0 = do {
     (orig, g1) \<leftarrow> choice (take 10 cities) g0;
     (dest0, g2) \<leftarrow> choice cities g1;
     (dest, g3) \<leftarrow> redraw orig dest0 g2;
     (base_price, g4) \<leftarrow> (if dest \<in> set (take 10 cities) then randint 150 400 g3
                           else randint 800 2500 g3);
     (date_offset, g5) \<leftarrow> randint 1 90 g4;
     (demand, g6) \<leftarrow> randint 30 100 g5;
     (avail, g7) \<leftarrow> randint 10 200 g6;
     (line, g8) \<leftarrow> choice airlines g7;
     Some (\<lparr>origin_draw = orig, destination_draw = dest, base_price_draw = base_price,
             date_offset_draw = date_offset, demand_draw = demand,
             availability_draw = avail, airline_draw = line\<rparr>, g8)
   }"

fun gen_draws :: "nat \<Rightarrow> rng \<Rightarrow> (route_draws list \<times> rng) option" where
  "gen_draws 0 g = Some ([], g)"
| "gen_draws (Suc n) g = do {
     (d, g1) \<leftarrow> draw_route g;
     (ds, g2) \<leftarrow> gen_draws n g1;
     Some (d # ds, g2)
   }"

text \<open>A record to build concrete inputs from.\<close>

definition example_flight :: flight where
  "example_flight =
     \<lparr>origin = ''Sydney'', destination = ''Melbourne'', price = 299, date = 739000,
      demand_score = 50, availability = 100, is_domestic = True, airline = ''Qantas''\<rparr>"

section \<open>The analyzers of Api_Integration.py\<close>

subsection \<open>Rows, frames and JSON values\<close>

text \<open>
  A row is a dictionary from field names to cells, kept as an association list with one
  entry per key. A cell is \<^verbatim>\<open>None\<close>, an integer or a string; float and boolean cells are
  left out. \<^verbatim>\<open>pd.DataFrame(rows)\<close> has the union of the keys as columns, in the order of
  their first appearance, and a null cell wherever a row lacks the key or holds
  \<^verbatim>\<open>None\<close>.
\<close>

datatype cell = Null | IntCell int | StrCell string

type_synonym row = "(string \<times> cell) list"

definition columns :: "row list \<Rightarrow> string list" where
  "columns rows = rev (remdups (rev (concat (map (map fst) rows))))"

definition cell_at :: "row \<Rightarrow> string \<Rightarrow> cell" where
  "cell_at r c = (case map_of r c of None \<Rightarrow> Null | Some v \<Rightarrow> v)"

definition series :: "row list \<Rightarrow> string \<Rightarrow> cell list" where
  "series rows c = map (\<lambda>r. cell_at r c) rows"

definition is_null :: "cell \<Rightarrow> bool" where
  "is_null v = (v = Null)"

text \<open>A Python \<^verbatim>\<open>float\<close> that may also be infinite or not a number.\<close>

datatype pyfloat = Finite rat | PosInf | NegInf | NaN

datatype json =
    JNull | JBool bool | JInt int | JFloat pyfloat | JStr string
  | JArr "json list" | JObj "(string \<times> json) list"

subsection \<open>MarketDataAggregator._assess_data_quality\<close>

text \<open>
  The messages are kept as their template and the values interpolated into it.
  \<^verbatim>\<open>completeness\<close> is absent from the result for the empty list.
\<close>

datatype issue =
    NoDataAvailable
  | MissingRequiredFields "string list"
  | NullValuesFound "(string \<times> nat) list"
  | NoMajorIssues

record quality =
  quality_score :: int
  issues :: "issue list"
  completeness :: "pyfloat option"

definition required_fields :: "string list" where
  "required_fields = [''origin'', ''destination'', ''price'', ''date'']"

text \<open>\<^verbatim>\<open>df.isnull().sum()\<close>: the number of null cells of each column.\<close>

definition null_counts :: "row list \<Rightarrow> (string \<times> nat) list" where
  "null_counts rows = map (\<lambda>c. (c, length (filter is_null (series rows c)))) (columns rows)"

text \<open>
  \<^verbatim>\<open>(1 - nulls / (len(df) * len(df.columns))) * 100\<close> in float arithmetic. When no row has
  any key the frame has no cell and the quotient is \<open>0 / 0\<close>; what pandas and numpy make
  of it (a \<^verbatim>\<open>nan\<close>, or \<^verbatim>\<open>ZeroDivisionError\<close>) is the parameter \<open>zero_by_zero\<close>.
\<close>

definition completeness_of :: "error + pyfloat \<Rightarrow> nat \<Rightarrow> nat \<Rightarrow> error + pyfloat" where
  "completeness_of zero_by_zero nulls cells =
     (if cells = 0 then zero_by_zero
      else Inr (Finite (fl (fl (1 - fl (of_nat nulls / of_nat cells)) * 100))))"

definition assess_data_quality :: "error + pyfloat \<Rightarrow> row list \<Rightarrow> error + quality" where
  "assess_data_quality zero_by_zero flight_data =
     (if flight_data = [] then
        Inr \<lparr>quality_score = 0, issues = [NoDataAvailable], completeness = None\<rparr>
      else
        let missing_fields = filter (\<lambda>field. field \<notin> set (columns flight_data)) required_fields;
            quality_score0 = max 0 (100 - int (length missing_fields) * 25);
            issues0 = (if missing_fields \<noteq> [] then [MissingRequiredFields missing_fields] else []);
            counts = null_counts flight_data;
            nulls = sum_list (map snd counts);
            issues1 = (if 0 < nulls
                       then issues0 @ [NullValuesFound (filter (\<lambda>kv. 0 < snd kv) counts)]
                       else issues0);
            quality_score1 = (if 0 < nulls then quality_score0 - min 20 (int nulls)
                              else quality_score0)
        in bind_err
             (completeness_of zero_by_zero nulls
                (length flight_data * length (columns flight_data)))
             (\<lambda>c. Inr \<lparr>quality_score = max 0 quality_score1,
                       issues = (if issues1 \<noteq> [] then issues1 else [NoMajorIssues]),
                       completeness = Some c\<rparr>))"

subsection \<open>OpenAIAnalyzer\<close>

record analyzer =
  api_key :: "string option"
  base_url :: string

text \<open>\<^verbatim>\<open>OpenAIAnalyzer(api_key)\<close>, with the value of the environment variable as a parameter.\<close>

definition init_analyzer :: "string option \<Rightarrow> string option \<Rightarrow> analyzer" where
  "init_analyzer key env_key =
     \<lparr>api_key = (if key \<noteq> None \<and> key \<noteq> Some [] then key else env_key),
      base_url = ''https://api.openai.com/v1''\<rparr>"



text \<open>
  The reductions of the \<^verbatim>\<open>price\<close> column. The mean and the extremes skip the null
  cells and are \<^verbatim>\<open>nan\<close> when nothing is left; a string in the column makes the mean raise
  \<^verbatim>\<open>TypeError\<close> (pandas 2). The sum is taken exactly, as it is in float arithmetic as
  long as the partial sums stay within \<open>2^53\<close>.
\<close>

definition int_cells :: "cell list \<Rightarrow> int list" where
  "int_cells cs = concat (map (\<lambda>c. case c of IntCell i \<Rightarrow> [i] | _ \<Rightarrow> []) cs)"

definition has_str :: "cell list \<Rightarrow> bool" where
  "has_str cs = list_ex (\<lambda>c. case c of StrCell s \<Rightarrow> True | _ \<Rightarrow> False) cs"

definition series_mean :: "cell list \<Rightarrow> error + pyfloat" where
  "series_mean cs =
     (if has_str cs then Inl TypeError
      else if int_cells cs = [] then Inr NaN
      else Inr (Finite (fl (of_int (sum_list (int_cells cs)) / of_nat (length (int_cells cs))))))"

definition series_min :: "cell list \<Rightarrow> pyfloat" where
  "series_min cs = (if int_cells cs = [] then NaN else Finite (fl (of_int (Min (set (int_cells cs))))))"

definition series_max :: "cell list \<Rightarrow> pyfloat" where
  "series_max cs = (if int_cells cs = [] then NaN else Finite (fl (of_int (Max (set (int_cells cs))))))"

text \<open>\<^verbatim>\<open>format(x, '.0f')\<close>\<close>

fun fmt_0f :: "pyfloat \<Rightarrow> string" where
  "fmt_0f (Finite x) = fmt_f 0 x"
| "fmt_0f PosInf = ''inf''"
| "fmt_0f NegInf = ''-inf''"
| "fmt_0f NaN = ''nan''"


text \<open>\<^verbatim>\<open>df['price'].mean() if 'price' in df.columns else 0\<close>\<close>

definition price_average :: "row list \<Rightarrow> error + pyfloat" where
  "price_average flight_data =
     (if ''price'' \<in> set (columns flight_data) then series_mean (series flight_data ''price'')
      else Inr (Finite 0))"

definition generate_mock_insights :: "analyzer \<Rightarrow> row list \<Rightarrow> error + json" where
  "generate_mock_insights self flight_data =
     (if flight_data = [] then
        Inr (JObj
          [(''demand_insights'', JArr [JStr ''No flight data available for analysis'']),
           (''price_insights'', JArr []),
           (''route_insights'', JArr []),
           (''recommendations'', JArr []),
           (''summary'', JStr ''Insufficient data for analysis'')])
      else
        let has_price = (''price'' \<in> set (columns flight_data));
            prices = series flight_data ''price''
        in bind_err (price_average flight_data) (\<lambda>avg_price.
           Inr (JObj
             [(''demand_insights'', JArr
                 [JStr (''Analyzed '' @ str_int (int (length flight_data))
                          @ '' flights across multiple routes''),
                  JStr (''Average flight price is $'' @ fmt_0f avg_price @ '' AUD''),
                  JStr ''Weekend flights show higher demand patterns'',
                  JStr ''Morning flights (6-9 AM) are most popular for business routes'']),
              (''price_insights'', JArr
                 [JStr (if has_price
                        then ''Price range varies from $'' @ fmt_0f (series_min prices)
                               @ '' to $'' @ fmt_0f (series_max prices)
                        else ''Price data unavailable''),
                  JStr ''International flights average 60% higher than domestic'',
                  JStr ''Booking 3-4 weeks in advance offers best value'']),
              (''route_insights'', JArr
                 [JStr ''Sydney-Melbourne remains the busiest route'',
                  JStr ''International routes to Asia show strong demand'',
                  JStr ''Regional routes have limited but stable demand'']),
              (''recommendations'', JArr
                 [JStr ''Book domestic flights 2-3 weeks in advance'',
                  JStr ''Consider Tuesday/Wednesday departures for lower prices'',
                  JStr ''Morning flights offer better on-time performance'']),
              (''summary'', JStr
                 ''Market shows healthy demand with price stability across major routes'')])))"

subsection \<open>OpenAIAnalyzer.analyze_flight_trends\<close>













text \<open>Two records that differ in their origin only, and the analyzer with a key.\<close>

definition example_row :: "string \<Rightarrow> row" where
  "example_row from_city = [(''origin'', StrCell from_city), (''price'', IntCell 299)]"

definition keyed_analyzer :: analyzer where
  "keyed_analyzer = init_analyzer (Some ''sk-1'') None"

section \<open>Properties of the floating-point operations\<close>

lemma pow2_powi: "pow2 e = 2 powi e"
  by (simp add: pow2_def power_int_def inverse_eq_divide power_one_over)

lemma pow2_pos: "0 < pow2 e"
  by (simp add: pow2_powi)

lemma pow2_add: "pow2 (a + b) = pow2 a * pow2 b"
  by (simp add: pow2_powi power_int_add)

lemma pow2_mono: "a \<le> b \<Longrightarrow> pow2 a \<le> pow2 b"
  by (simp add: pow2_powi power_int_increasing)

lemma pow2_nat: "0 \<le> e \<Longrightarrow> pow2 e = of_int (2 ^ nat e)"
  by (simp add: pow2_def)

lemma rhe_ge: "of_int k \<le> x \<Longrightarrow> k \<le> round_half_even x"
proof -
  assume "of_int k \<le> x"
  then have "k \<le> \<lfloor>x\<rfloor>" by (simp add: le_floor_iff)
  then show ?thesis by (simp add: round_half_even_def Let_def)
qed

lemma rhe_le: "x \<le> of_int k \<Longrightarrow> round_half_even x \<le> k"
proof (cases "x = of_int k")
  case True
  then show ?thesis by (simp add: round_half_even_def Let_def)
next
  case False
  assume "x \<le> of_int k"
  with False have "x < of_int k" by simp
  then have "\<lfloor>x\<rfloor> < k" by (simp add: floor_less_iff)
  then show ?thesis by (simp add: round_half_even_def Let_def)
qed

lemma rhe_of_int: "round_half_even (of_int k) = k"
  by (simp add: round_half_even_def Let_def)

lemma binade_bounds:
  assumes "0 < x"
  shows "pow2 (binade x) \<le> x" and "x < pow2 (binade x + 1)"
proof -
  obtain p q where pq: "quotient_of x = (p, q)" by (cases "quotient_of x")
  then have q: "0 < q" and x: "x = of_int p / of_int q"
    by (auto simp: quotient_of_denom_pos quotient_of_div)
  from assms x q have p: "0 < p" by (simp add: zero_less_divide_iff)
  define a where "a = bitlen p"
  define b where "b = bitlen q"
  have a1: "1 \<le> a" and b1: "1 \<le> b" using p q by (auto simp: a_def b_def bitlen_alt_def)
  have pu: "p < 2 ^ nat a" and pl: "2 ^ nat (a - 1) \<le> p"
    using bitlen_bounds[OF p] by (auto simp: a_def)
  have qu: "q < 2 ^ nat b" and ql: "2 ^ nat (b - 1) \<le> q"
    using bitlen_bounds[OF q] by (auto simp: b_def)
  have pu': "(of_int p :: rat) < pow2 a" using pu a1
    by (simp add: pow2_nat)
  have pl': "pow2 (a - 1) \<le> (of_int p :: rat)" using pl a1
    by (simp add: pow2_nat)
  have qu': "(of_int q :: rat) < pow2 b" using qu b1
    by (simp add: pow2_nat)
  have ql': "pow2 (b - 1) \<le> (of_int q :: rat)" using ql b1
    by (simp add: pow2_nat)
  have qpos: "(0::rat) < of_int q" using q by simp
  have up: "x < pow2 (a - b + 1)"
  proof -
    have "of_int p < pow2 (a - b + 1) * pow2 (b - 1)"
      using pu' by (simp add: pow2_add[symmetric])
    also have "\<dots> \<le> pow2 (a - b + 1) * of_int q"
      using ql' pow2_pos[of "a - b + 1"] by (simp add: mult_left_mono)
    finally show ?thesis using qpos by (simp add: x pos_divide_less_eq)
  qed
  have lo: "pow2 (a - b - 1) \<le> x"
  proof -
    have "pow2 (a - b - 1) * of_int q \<le> pow2 (a - b - 1) * pow2 b"
      using qu' pow2_pos[of "a - b - 1"] by (simp add: mult_left_mono)
    also have "\<dots> = pow2 (a - 1)" by (simp add: pow2_add[symmetric])
    also have "\<dots> \<le> of_int p" by (rule pl')
    finally show ?thesis using qpos by (simp add: x pos_le_divide_eq)
  qed
  have bd: "binade x = (if pow2 (a - b) \<le> x then a - b else a - b - 1)"
    by (simp add: binade_def pq a_def b_def Let_def)
  show "pow2 (binade x) \<le> x" using lo by (simp add: bd)
  show "x < pow2 (binade x + 1)" using up by (auto simp: bd not_le)
qed


lemma fl_pos:
  "0 < x \<Longrightarrow> fl x = of_int (round_half_even (x / pow2 (max (binade x - 52) (- 1074))))
                        * pow2 (max (binade x - 52) (- 1074))"
  by (simp add: fl_def Let_def)

lemma fl_minus: "fl (- x) = - fl x"
  by (simp add: fl_def Let_def)

lemma fl_zero: "fl 0 = 0"
  by (simp add: fl_def)

lemma fl_upper_grid:
  assumes "0 < x" and "x \<le> of_int K * pow2 (max (binade x - 52) (- 1074))"
  shows "fl x \<le> of_int K * pow2 (max (binade x - 52) (- 1074))"
proof -
  let ?s = "max (binade x - 52) (- 1074)"
  have "x / pow2 ?s \<le> of_int K" using assms(2) pow2_pos[of ?s] by (simp add: pos_divide_le_eq)
  then have "round_half_even (x / pow2 ?s) \<le> K" by (rule rhe_le)
  then have "(of_int (round_half_even (x / pow2 ?s)) :: rat) \<le> of_int K" by simp
  then show ?thesis using pow2_pos[of ?s] by (simp add: fl_pos[OF assms(1)] mult_right_mono)
qed

lemma fl_lower_grid:
  assumes "0 < x" and "of_int K * pow2 (max (binade x - 52) (- 1074)) \<le> x"
  shows "of_int K * pow2 (max (binade x - 52) (- 1074)) \<le> fl x"
proof -
  let ?s = "max (binade x - 52) (- 1074)"
  have "of_int K \<le> x / pow2 ?s" using assms(2) pow2_pos[of ?s] by (simp add: pos_le_divide_eq)
  then have "K \<le> round_half_even (x / pow2 ?s)" by (rule rhe_ge)
  then have "(of_int K :: rat) \<le> of_int (round_half_even (x / pow2 ?s))" by simp
  then show ?thesis using pow2_pos[of ?s] by (simp add: fl_pos[OF assms(1)] mult_right_mono)
qed

lemma int_on_grid: "s \<le> 0 \<Longrightarrow> (of_int b :: rat) = of_int (b * 2 ^ nat (- s)) * pow2 s"
  by (simp add: pow2_def)

lemma fl_two_53: "fl (2 ^ 53) = 2 ^ 53"
  by code_simp

lemma fl_ub:
  assumes "0 < x" and "x \<le> of_int b" and "b \<le> 2 ^ 53"
  shows "fl x \<le> of_int b"
proof (cases "max (binade x - 52) (- 1074) \<le> 0")
  case True
  define K where "K = b * 2 ^ nat (- max (binade x - 52) (- 1074))"
  have g: "(of_int b :: rat) = of_int K * pow2 (max (binade x - 52) (- 1074))"
    unfolding K_def by (rule int_on_grid[OF True])
  have "x \<le> of_int K * pow2 (max (binade x - 52) (- 1074))"
    using assms(2) by (simp only: g)
  then have "fl x \<le> of_int K * pow2 (max (binade x - 52) (- 1074))"
    by (rule fl_upper_grid[OF assms(1)])
  then show ?thesis by (simp only: g)
next
  case False
  then have "53 \<le> binade x" by simp
  then have "pow2 53 \<le> pow2 (binade x)" by (rule pow2_mono)
  also have "\<dots> \<le> x" by (rule binade_bounds(1)[OF assms(1)])
  finally have lo: "2 ^ 53 \<le> x" by (simp add: pow2_def)
  have "(of_int b :: rat) \<le> of_int (2 ^ 53)" using assms(3) by (simp only: of_int_le_iff)
  then have hi: "(of_int b :: rat) \<le> 2 ^ 53" by simp
  from lo hi assms(2) have "x = 2 ^ 53" and "of_int b = x" by auto
  then show ?thesis using fl_two_53 by simp
qed

lemma fl_lb:
  assumes "0 < x" and "of_int a \<le> x" and "a \<le> 2 ^ 53"
  shows "of_int a \<le> fl x"
proof (cases "max (binade x - 52) (- 1074) \<le> 0")
  case True
  define K where "K = a * 2 ^ nat (- max (binade x - 52) (- 1074))"
  have g: "(of_int a :: rat) = of_int K * pow2 (max (binade x - 52) (- 1074))"
    unfolding K_def by (rule int_on_grid[OF True])
  have "of_int K * pow2 (max (binade x - 52) (- 1074)) \<le> x"
    using assms(2) by (simp only: g)
  then have "of_int K * pow2 (max (binade x - 52) (- 1074)) \<le> fl x"
    by (rule fl_lower_grid[OF assms(1)])
  then show ?thesis by (simp only: g)
next
  case False
  let ?s = "binade x - 52"
  from False have s: "max (binade x - 52) (- 1074) = ?s" and s1: "1 \<le> ?s" by simp_all
  have "of_int (2 ^ 52) * pow2 ?s = pow2 52 * pow2 ?s" by (simp add: pow2_def)
  also have "\<dots> = pow2 (binade x)" by (simp add: pow2_add[symmetric])
  also have "\<dots> \<le> x" by (rule binade_bounds(1)[OF assms(1)])
  finally have "of_int (2 ^ 52) * pow2 ?s \<le> fl x"
    using fl_lower_grid[OF assms(1), of "2 ^ 52"] by (simp only: s)
  moreover have "pow2 1 \<le> pow2 ?s" using s1 by (rule pow2_mono)
  then have "(2 ^ 53 :: rat) \<le> of_int (2 ^ 52) * pow2 ?s" by (simp add: pow2_def)
  moreover have "(of_int a :: rat) \<le> of_int (2 ^ 53)" using assms(3) by (simp only: of_int_le_iff)
  ultimately show ?thesis by simp
qed

lemma fl_nonneg: "0 \<le> x \<Longrightarrow> 0 \<le> fl x"
proof (cases "x = 0")
  case True then show ?thesis by (simp add: fl_zero)
next
  case False
  assume "0 \<le> x"
  with False have "0 < x" by simp
  then show ?thesis using fl_lower_grid[of x 0] by simp
qed

lemma fl_ge_int:
  assumes "of_int a \<le> x" and "x \<le> of_int b" and "- (2 ^ 53) \<le> a" and "b \<le> 2 ^ 53"
  shows "of_int a \<le> fl x"
proof -
  have ab: "a \<le> b" using assms(1,2) by (metis of_int_le_iff order_trans)
  consider "x = 0" | "0 < x" | "x < 0" by linarith
  then show ?thesis
  proof cases
    case 1 then show ?thesis using assms(1) by (simp add: fl_zero)
  next
    case 2
    show ?thesis
    proof (cases "a \<le> 0")
      case True
      then have "(of_int a :: rat) \<le> 0" by simp
      then show ?thesis using fl_nonneg[of x] 2 by simp
    next
      case False
      show ?thesis using fl_lb[OF 2 assms(1)] ab assms(4) by simp
    qed
  next
    case 3
    then have p: "0 < - x" by simp
    have "- x \<le> of_int (- a)" using assms(1) by simp
    then have "fl (- x) \<le> of_int (- a)" using fl_ub[OF p, of "- a"] assms(3) by simp
    then show ?thesis by (simp add: fl_minus)
  qed
qed

lemma fl_le_int:
  assumes "of_int a \<le> x" and "x \<le> of_int b" and "- (2 ^ 53) \<le> a" and "b \<le> 2 ^ 53"
  shows "fl x \<le> of_int b"
proof -
  have "of_int (- b) \<le> - x" and "- x \<le> of_int (- a)" using assms(1,2) by simp_all
  then have "of_int (- b) \<le> fl (- x)" using fl_ge_int[of "- b" "- x" "- a"] assms(3,4) by simp
  then show ?thesis by (simp add: fl_minus)
qed

lemma fl_of_int: "\<bar>n\<bar> \<le> 2 ^ 53 \<Longrightarrow> fl (of_int n) = of_int n"
proof -
  assume "\<bar>n\<bar> \<le> 2 ^ 53"
  then have b: "- (2 ^ 53) \<le> n" "n \<le> 2 ^ 53" by simp_all
  have "of_int n \<le> fl (of_int n)" by (rule fl_ge_int[OF _ _ b]) simp_all
  moreover have "fl (of_int n) \<le> of_int n" by (rule fl_le_int[OF _ _ b]) simp_all
  ultimately show ?thesis by simp
qed

lemma fl_numeral: "numeral k \<le> (2 ^ 53 :: int) \<Longrightarrow> fl (numeral k) = numeral k"
  using fl_of_int[of "numeral k"] by simp

lemma round_half_even_numeral: "round_half_even (numeral k) = numeral k"
  using rhe_of_int[of "numeral k"] by simp

subsection \<open>The overflow threshold\<close>

lemma rhe_far: "y < of_int N + 1 / 2 \<Longrightarrow> round_half_even y \<le> N"
proof (cases "y \<le> of_int N")
  case True
  then show ?thesis by (rule rhe_le)
next
  case False
  assume hi: "y < of_int N + 1 / 2"
  have "\<lfloor>y\<rfloor> = N" using False hi by (intro floor_unique) auto
  then show ?thesis using hi by (simp add: round_half_even_def Let_def)
qed

lemma pow2_strict: "a < b \<Longrightarrow> pow2 a < pow2 b"
  by (simp add: pow2_powi power_int_strict_increasing)

lemma pow2_le_imp: "pow2 a \<le> pow2 b \<Longrightarrow> a \<le> b"
  using pow2_strict[of b a] by (cases "a \<le> b") auto

lemma fl_below_overflow:
  assumes "0 < x" and "x < pow2 1024 - pow2 970"
  shows "fl x < pow2 1024"
proof -
  define b where "b = binade x"
  define p where "p = pow2 971"
  have ppos: "0 < p" by (simp add: p_def pow2_pos)
  have P1024: "pow2 1024 = 2 ^ 53 * p"
  proof -
    have "pow2 (53 + 971) = pow2 53 * pow2 971" by (rule pow2_add)
    moreover have "pow2 53 = 2 ^ 53" by (simp add: pow2_def)
    ultimately show ?thesis by (simp add: p_def)
  qed
  have P970: "pow2 970 = p / 2"
  proof -
    have "pow2 (970 + 1) = pow2 970 * pow2 1" by (rule pow2_add)
    moreover have "pow2 1 = 2" by (simp add: pow2_def)
    ultimately show ?thesis by (simp add: p_def)
  qed
  have P1023: "pow2 1023 = 2 ^ 52 * p"
  proof -
    have "pow2 (52 + 971) = pow2 52 * pow2 971" by (rule pow2_add)
    moreover have "pow2 52 = 2 ^ 52" by (simp add: pow2_def)
    ultimately show ?thesis by (simp add: p_def)
  qed
  have b_lo: "pow2 b \<le> x" and b_hi: "x < pow2 (b + 1)"
    using binade_bounds[OF assms(1)] by (simp_all add: b_def)
  have x_lt: "x < pow2 1024" using assms(2) ppos by (simp add: P1024 P970)
  have "pow2 b < pow2 1024" using b_lo x_lt by simp
  then have b1023: "b \<le> 1023" using pow2_mono[of 1024 b] by (cases "b \<le> 1023") auto
  show ?thesis
  proof (cases "x \<le> pow2 1023")
    case True
    let ?s = "max (binade x - 52) (- 1074)"
    have s: "?s \<le> 1023" using b1023 by (simp add: b_def)
    define K :: int where "K = 2 ^ nat (1023 - ?s)"
    have "of_int K * pow2 ?s = pow2 (1023 - ?s) * pow2 ?s"
      using s by (simp add: K_def pow2_nat)
    also have "\<dots> = pow2 (1023 - ?s + ?s)" by (rule pow2_add[symmetric])
    finally have Kp: "of_int K * pow2 ?s = pow2 1023" by simp
    have "fl x \<le> of_int K * pow2 ?s"
      by (rule fl_upper_grid[OF assms(1)]) (simp only: Kp True)
    then have "fl x \<le> pow2 1023" by (simp only: Kp)
    also have "\<dots> < pow2 1024" by (rule pow2_strict) simp
    finally show ?thesis .
  next
    case False
    then have "pow2 1023 < pow2 (b + 1)" using b_hi by simp
    then have "1023 < b + 1" using pow2_mono[of "b + 1" 1023] by (cases "1023 < b + 1") auto
    then have b: "b = 1023" using b1023 by simp
    have s: "max (binade x - 52) (- 1074) = 971" using b by (simp add: b_def)
    have flx: "fl x = of_int (round_half_even (x / p)) * p"
      by (simp add: fl_pos[OF assms(1)] s p_def)
    have "x < (2 ^ 53 - 1 / 2) * p" using assms(2) by (simp add: P1024 P970 algebra_simps)
    then have "x / p < of_int (2 ^ 53 - 1) + 1 / 2" using ppos by (simp add: pos_divide_less_eq)
    then have "round_half_even (x / p) \<le> 2 ^ 53 - 1" by (rule rhe_far)
    then have "(of_int (round_half_even (x / p)) :: rat) \<le> of_int (2 ^ 53 - 1)"
      by (simp only: of_int_le_iff)
    then have "fl x \<le> of_int (2 ^ 53 - 1) * p" using ppos by (simp only: flx mult_right_mono)
    also have "\<dots> < 2 ^ 53 * p" using ppos by simp
    finally show ?thesis by (simp only: P1024)
  qed
qed

lemma fl_abs_below_overflow:
  assumes "\<bar>x\<bar> < pow2 1024 - pow2 970"
  shows "\<bar>fl x\<bar> < pow2 1024"
proof -
  consider "x = 0" | "0 < x" | "x < 0" by linarith
  then show ?thesis
  proof cases
    case 1
    then show ?thesis by (simp add: fl_zero pow2_pos)
  next
    case 2
    then have "fl x < pow2 1024" using assms by (intro fl_below_overflow) simp_all
    moreover have "0 \<le> fl x" using 2 by (intro fl_nonneg) simp
    ultimately show ?thesis by simp
  next
    case 3
    then have "fl (- x) < pow2 1024" using assms by (intro fl_below_overflow) simp_all
    moreover have "0 \<le> fl (- x)" using 3 by (intro fl_nonneg) simp
    ultimately show ?thesis by (simp add: fl_minus)
  qed
qed

lemma fl_pow2_1024: "pow2 1024 \<le> fl (pow2 1024)"
proof -
  let ?x = "pow2 1024"
  let ?s = "max (binade ?x - 52) (- 1074)"
  have xpos: "0 < ?x" by (rule pow2_pos)
  have "pow2 (binade ?x) \<le> pow2 1024" by (rule binade_bounds(1)[OF xpos])
  then have "binade ?x \<le> 1024" by (rule pow2_le_imp)
  then have s: "?s \<le> 1024" by simp
  define K :: int where "K = 2 ^ nat (1024 - ?s)"
  have "of_int K * pow2 ?s = pow2 (1024 - ?s) * pow2 ?s"
    using s by (simp add: K_def pow2_nat)
  also have "\<dots> = pow2 (1024 - ?s + ?s)" by (rule pow2_add[symmetric])
  finally have Kp: "of_int K * pow2 ?s = ?x" by simp
  have "of_int K * pow2 ?s \<le> fl ?x"
    by (rule fl_lower_grid[OF xpos]) (simp only: Kp order_refl)
  then show ?thesis by (simp only: Kp)
qed

subsection \<open>Averages of a partition\<close>

lemma sum_list_ge: "\<forall>p\<in>set ps. a \<le> p \<Longrightarrow> a * int (length ps) \<le> sum_list ps"
  by (induction ps) (auto simp: algebra_simps)

lemma sum_list_le: "\<forall>p\<in>set ps. p \<le> b \<Longrightarrow> sum_list ps \<le> b * int (length ps)"
  by (induction ps) (auto simp: algebra_simps)

lemma mean_between:
  assumes "ps \<noteq> []"
  shows "(of_int (Min (set ps)) :: rat) \<le> of_int (sum_list ps) / of_int (int (length ps))"
    and "(of_int (sum_list ps) :: rat) / of_int (int (length ps)) \<le> of_int (Max (set ps))"
proof -
  let ?n = "int (length ps)"
  have n: "(0::rat) < of_int ?n" using assms by simp
  have "Min (set ps) * ?n \<le> sum_list ps" by (rule sum_list_ge) simp
  then have "(of_int (Min (set ps) * ?n) :: rat) \<le> of_int (sum_list ps)"
    by (simp only: of_int_le_iff)
  then show "(of_int (Min (set ps)) :: rat) \<le> of_int (sum_list ps) / of_int ?n"
    using n by (simp add: pos_le_divide_eq)
  have "sum_list ps \<le> Max (set ps) * ?n" by (rule sum_list_le) simp
  then have "(of_int (sum_list ps) :: rat) \<le> of_int (Max (set ps) * ?n)"
    by (simp only: of_int_le_iff)
  then show "(of_int (sum_list ps) :: rat) / of_int ?n \<le> of_int (Max (set ps))"
    using n by (simp add: pos_divide_le_eq)
qed

lemma py_round_between:
  assumes "of_int a \<le> x" and "x \<le> of_int b" and "- (2 ^ 53) \<le> a" and "b \<le> 2 ^ 53"
  shows "of_int a \<le> py_round x n \<and> py_round x n \<le> of_int b"
proof -
  let ?r = "round_half_even (x * 10 ^ n)"
  have "of_int (a * 10 ^ n) \<le> x * 10 ^ n" using assms(1) by simp
  then have "a * 10 ^ n \<le> ?r" by (rule rhe_ge)
  then have "(of_int (a * 10 ^ n) :: rat) \<le> of_int ?r" by (simp only: of_int_le_iff)
  then have lo: "(of_int a :: rat) \<le> of_int ?r / 10 ^ n" by (simp add: pos_le_divide_eq)
  have "x * 10 ^ n \<le> of_int (b * 10 ^ n)" using assms(2) by simp
  then have "?r \<le> b * 10 ^ n" by (rule rhe_le)
  then have "(of_int ?r :: rat) \<le> of_int (b * 10 ^ n)" by (simp only: of_int_le_iff)
  then have hi: "(of_int ?r :: rat) / 10 ^ n \<le> of_int b" by (simp add: pos_divide_le_eq)
  show ?thesis
    unfolding py_round_def
    using fl_ge_int[OF lo hi assms(3,4)] fl_le_int[OF lo hi assms(3,4)] by simp
qed

lemma rounded_avg_between:
  assumes "ps \<noteq> []" and "\<forall>p\<in>set ps. \<bar>p\<bar> \<le> 2 ^ 53"
  shows "\<exists>q. rounded_avg ps = Inr (PyFloat q)
             \<and> of_int (Min (set ps)) \<le> q \<and> q \<le> of_int (Max (set ps))"
proof -
  let ?m = "(of_int (sum_list ps) :: rat) / of_int (int (length ps))"
  have mn: "Min (set ps) \<in> set ps" and mx: "Max (set ps) \<in> set ps"
    using assms(1) by (simp_all add: Min_in Max_in)
  have a: "- (2 ^ 53) \<le> Min (set ps)" using assms(2) mn by fastforce
  have b: "Max (set ps) \<le> 2 ^ 53" using assms(2) mx by fastforce
  have lo: "of_int (Min (set ps)) \<le> fl ?m"
    by (rule fl_ge_int[OF mean_between[OF assms(1)] a b])
  have hi: "fl ?m \<le> of_int (Max (set ps))"
    by (rule fl_le_int[OF mean_between[OF assms(1)] a b])
  have "(of_int (Max (set ps)) :: rat) \<le> of_int (2 ^ 53)" using b by (simp only: of_int_le_iff)
  moreover have "(of_int (- (2 ^ 53)) :: rat) \<le> of_int (Min (set ps))"
    using a by (simp only: of_int_le_iff)
  ultimately have "\<bar>fl ?m\<bar> \<le> 2 ^ 53" using lo hi by simp
  moreover have "(2 ^ 53 :: rat) < 2 ^ 1024" by simp
  ultimately have small: "\<not> 2 ^ 1024 \<le> \<bar>fl ?m\<bar>" by linarith
  have len: "int (length ps) \<noteq> 0" using assms(1) by simp
  have td: "py_truediv (sum_list ps) (int (length ps)) = Inr (fl ?m)"
    unfolding py_truediv_def Let_def using small len by simp
  have "rounded_avg ps = Inr (PyFloat (py_round (fl ?m) 2))"
    using assms(1) by (simp add: rounded_avg_def td bind_err_def)
  then show ?thesis using py_round_between[OF lo hi a b, of 2] by simp
qed

lemma rounded_avg_total:
  assumes "\<forall>p\<in>set ps. \<bar>p\<bar> \<le> 2 ^ 53"
  shows "\<exists>v. rounded_avg ps = Inr v
             \<and> (ps \<noteq> [] \<longrightarrow> of_int (Min (set ps)) \<le> num_value v
                                \<and> num_value v \<le> of_int (Max (set ps)))"
proof (cases "ps = []")
  case True
  then show ?thesis by (simp add: rounded_avg_def)
next
  case False
  from rounded_avg_between[OF False assms] show ?thesis by auto
qed

section \<open>The aggregations of app.py\<close>

lemma rounded_avg_Nil: "rounded_avg [] = Inr (PyInt 0)"
  by (simp add: rounded_avg_def)

lemma range_str_Nil: "range_str [] = ''N/A''"
  by (simp add: range_str_def)

lemma rounded_avg_100_300: "rounded_avg [100, 300] = Inr (PyFloat 200)"
  by (simp add: rounded_avg_def py_truediv_def py_round_def bind_err_def fl_numeral
      round_half_even_numeral)

lemma rounded_avg_1000: "rounded_avg [1000] = Inr (PyFloat 1000)"
  by (simp add: rounded_avg_def py_truediv_def py_round_def bind_err_def fl_numeral
      round_half_even_numeral)

lemma range_str_100_300: "range_str [100, 300] = ''$100 - $300''"
  by (simp add: range_str_def str_int_def digits.simps digit_char_def)

lemma range_str_1000: "range_str [1000] = ''$1000 - $1000''"
  by (simp add: range_str_def str_int_def digits.simps digit_char_def)

text \<open>
  C1. On the empty record list \<^verbatim>\<open>analyze_popular_routes\<close> returns the empty list and
  \<^verbatim>\<open>analyze_price_trends\<close> returns the averages 0 with the ranges \<^verbatim>\<open>N/A\<close>, but
  \<^verbatim>\<open>get_demand_insights\<close> does not return the empty insight list: \<^verbatim>\<open>max\<close> is applied to
  an empty dictionary and raises \<^verbatim>\<open>ValueError\<close>.
\<close>

theorem C1_empty_input:
  "snd (analyze_popular_routes self []) = Inr []
   \<and> snd (analyze_price_trends self []) =
       Inr \<lparr>domestic_avg = PyInt 0, international_avg = PyInt 0,
            domestic_range = ''N/A'', international_range = ''N/A''\<rparr>
   \<and> snd (get_demand_insights self []) = Inl ValueError"
  by (simp add: analyze_popular_routes_def analyze_price_trends_def get_demand_insights_def
      route_demand_def weekday_demand_def sorted_reverse_def bind_err_def
      rounded_avg_Nil range_str_Nil)

text \<open>
  C5. For three records with the prices 100, 300 (domestic) and 1000 (international),
  whatever their other fields, \<^verbatim>\<open>analyze_price_trends\<close> returns the domestic average 200
  and the international average 1000.
\<close>

theorem C5_price_trends_example:
  "snd (analyze_price_trends self
          [f1\<lparr>price := 100, is_domestic := True\<rparr>,
           f2\<lparr>price := 300, is_domestic := True\<rparr>,
           f3\<lparr>price := 1000, is_domestic := False\<rparr>]) =
     Inr \<lparr>domestic_avg = PyFloat 200, international_avg = PyFloat 1000,
          domestic_range = ''$100 - $300'', international_range = ''$1000 - $1000''\<rparr>"
  by (simp add: analyze_price_trends_def bind_err_def rounded_avg_100_300 rounded_avg_1000
      range_str_100_300 range_str_1000)

text \<open>
  C9. The three aggregations return the processor as they received it, so its fields
  \<^verbatim>\<open>routes_data\<close>, \<^verbatim>\<open>price_trends\<close> and \<^verbatim>\<open>demand_patterns\<close> are unchanged, and the result
  of each is the same for every processor state: it depends on the record list alone.
\<close>

theorem C9_aggregations_leave_state:
  "fst (analyze_popular_routes self data) = self
   \<and> fst (analyze_price_trends self data) = self
   \<and> fst (get_demand_insights self data) = self
   \<and> snd (analyze_popular_routes self data) = snd (analyze_popular_routes self' data)
   \<and> snd (analyze_price_trends self data) = snd (analyze_price_trends self' data)
   \<and> snd (get_demand_insights self data) = snd (get_demand_insights self' data)"
  by (simp add: analyze_popular_routes_def analyze_price_trends_def get_demand_insights_def
      Let_def)

text \<open>
  C6 (as amended). When every price is an integer of magnitude at most \<open>2^53\<close>,
  \<^verbatim>\<open>analyze_price_trends\<close> returns, and for each of the two partitions that is not empty
  the average it returns lies between the least and the greatest price of the partition.
\<close>

theorem C6_average_within_range:
  assumes "\<forall>f\<in>set data. \<bar>price f\<bar> \<le> 2 ^ 53"
  shows "\<exists>s. snd (analyze_price_trends self data) = Inr s
    \<and> (filter is_domestic data \<noteq> [] \<longrightarrow>
         of_int (Min (set (map price (filter is_domestic data)))) \<le> num_value (domestic_avg s)
         \<and> num_value (domestic_avg s)
             \<le> of_int (Max (set (map price (filter is_domestic data)))))
    \<and> (filter (\<lambda>f. \<not> is_domestic f) data \<noteq> [] \<longrightarrow>
         of_int (Min (set (map price (filter (\<lambda>f. \<not> is_domestic f) data))))
             \<le> num_value (international_avg s)
         \<and> num_value (international_avg s)
             \<le> of_int (Max (set (map price (filter (\<lambda>f. \<not> is_domestic f) data)))))"
proof -
  let ?dp = "map price (filter is_domestic data)"
  let ?ip = "map price (filter (\<lambda>f. \<not> is_domestic f) data)"
  have "\<forall>p\<in>set ?dp. \<bar>p\<bar> \<le> 2 ^ 53" using assms by auto
  from rounded_avg_total[OF this] obtain da where
    da: "rounded_avg ?dp = Inr da"
        "?dp \<noteq> [] \<longrightarrow> of_int (Min (set ?dp)) \<le> num_value da
                        \<and> num_value da \<le> of_int (Max (set ?dp))"
    by blast
  have "\<forall>p\<in>set ?ip. \<bar>p\<bar> \<le> 2 ^ 53" using assms by auto
  from rounded_avg_total[OF this] obtain ia where
    ia: "rounded_avg ?ip = Inr ia"
        "?ip \<noteq> [] \<longrightarrow> of_int (Min (set ?ip)) \<le> num_value ia
                        \<and> num_value ia \<le> of_int (Max (set ?ip))"
    by blast
  have "snd (analyze_price_trends self data) =
          Inr \<lparr>domestic_avg = da, international_avg = ia,
               domestic_range = range_str ?dp, international_range = range_str ?ip\<rparr>"
    by (simp add: analyze_price_trends_def Let_def bind_err_def da(1) ia(1))
  then show ?thesis using da(2) ia(2) by simp
qed

lemma example_prices_small:
  "\<forall>f\<in>set [example_flight\<lparr>price := 100\<rparr>, example_flight\<lparr>price := 300\<rparr>,
              example_flight\<lparr>price := 1000, is_domestic := False\<rparr>]. \<bar>price f\<bar> \<le> 2 ^ 53"
  by simp

theorem C6_average_within_range_witness:
  "\<bar>price (example_flight\<lparr>price := 100\<rparr>)\<bar> \<le> 2 ^ 53
   \<and> \<bar>price (example_flight\<lparr>price := 300\<rparr>)\<bar> \<le> 2 ^ 53
   \<and> \<bar>price (example_flight\<lparr>price := 1000, is_domestic := False\<rparr>)\<bar> \<le> 2 ^ 53
   \<and> (\<exists>s. snd (analyze_price_trends init_processor
               [example_flight\<lparr>price := 100\<rparr>, example_flight\<lparr>price := 300\<rparr>,
                example_flight\<lparr>price := 1000, is_domestic := False\<rparr>]) = Inr s
         \<and> 100 \<le> num_value (domestic_avg s) \<and> num_value (domestic_avg s) \<le> 300
         \<and> 1000 \<le> num_value (international_avg s)
         \<and> num_value (international_avg s) \<le> 1000)"
  using C6_average_within_range[OF example_prices_small, of init_processor]
  by (simp add: example_flight_def)

lemma rounded_avg_huge:
  "rounded_avg [9007199254740993] = Inr (PyFloat 9007199254740992)"
  by code_simp

text \<open>
  C6 as stated fails beyond \<open>2^53\<close>: the only domestic price is \<open>2^53 + 1\<close>, the quotient
  is rounded to the float \<open>2^53\<close>, and the average returned is below the least price.
\<close>

theorem C6_counterexample:
  "map_sum id domestic_avg
     (snd (analyze_price_trends init_processor [example_flight\<lparr>price := 9007199254740993\<rparr>]))
     = Inr (PyFloat 9007199254740992)
   \<and> filter is_domestic [example_flight\<lparr>price := 9007199254740993\<rparr>] \<noteq> []
   \<and> num_value (PyFloat 9007199254740992)
       < of_int (Min (set (map price
            (filter is_domestic [example_flight\<lparr>price := 9007199254740993\<rparr>]))))"
  by (simp add: analyze_price_trends_def bind_err_def example_flight_def rounded_avg_huge
      rounded_avg_Nil)

subsection \<open>Grouping into a dictionary\<close>

lemma keys_dict_append:
  "map fst (dict_append k v kvs) =
     (if k \<in> set (map fst kvs) then map fst kvs else map fst kvs @ [k])"
  by (induction kvs) (fastforce simp: image_iff)+

lemma distinct_dict_append:
  "distinct (map fst kvs) \<Longrightarrow> distinct (map fst (dict_append k v kvs))"
  by (simp add: keys_dict_append)

lemma set_keys_dict_append:
  "set (map fst (dict_append k v kvs)) = insert k (set (map fst kvs))"
  by (auto simp: keys_dict_append)

lemma keys_foldl_dict_append:
  "distinct (map fst d) \<Longrightarrow>
     distinct (map fst (foldl (\<lambda>d f. dict_append (kf f) (vf f) d) d fs))
     \<and> set (map fst (foldl (\<lambda>d f. dict_append (kf f) (vf f) d) d fs))
         = set (map fst d) \<union> kf ` set fs"
proof (induction fs arbitrary: d)
  case Nil
  then show ?case by simp
next
  case (Cons f fs)
  have "distinct (map fst (dict_append (kf f) (vf f) d))"
    using Cons.prems by (rule distinct_dict_append)
  from Cons.IH[OF this] show ?case
    by (simp add: set_keys_dict_append del: set_map)
qed

lemma route_demand_keys:
  "distinct (map fst (route_demand data))"
  "set (map fst (route_demand data)) = route_key ` set data"
  using keys_foldl_dict_append[of "[]" route_key demand_score data]
  by (simp_all add: route_demand_def del: set_map)

lemma map_err_routes:
  "map_err route_entry_of kvs = Inr rs \<Longrightarrow> map route rs = map fst kvs"
proof (induction kvs arbitrary: rs)
  case Nil
  then show ?case by simp
next
  case (Cons kv kvs)
  from Cons.prems obtain r rs' where
    r: "route_entry_of kv = Inr r" and rs': "map_err route_entry_of kvs = Inr rs'"
    and eq: "rs = r # rs'"
    by (auto simp: bind_err_def split: sum.splits)
  have "route r = fst kv"
    using r by (auto simp: route_entry_of_def bind_err_def split: sum.splits)
  then show ?case using Cons.IH[OF rs'] eq by simp
qed

subsection \<open>The stable sort\<close>

lemma sorted_wrt_insort_key:
  assumes "sorted (map f ys)" and "sorted_wrt Q ys"
    and "\<forall>y\<in>set ys. f x \<le> f y \<longrightarrow> Q x y"
    and "\<forall>y\<in>set ys. \<not> f x \<le> f y \<longrightarrow> Q y x"
  shows "sorted_wrt Q (insort_key f x ys)"
  using assms
proof (induction ys)
  case Nil
  then show ?case by simp
next
  case (Cons y ys)
  show ?case
  proof (cases "f x \<le> f y")
    case True
    have "\<forall>z\<in>set (y # ys). f x \<le> f z" using True Cons.prems(1) by auto
    then have "\<forall>z\<in>set (y # ys). Q x z" using Cons.prems(3) by blast
    then show ?thesis using True Cons.prems(2) by simp
  next
    case False
    have ih: "sorted_wrt Q (insort_key f x ys)"
      using Cons.prems by (intro Cons.IH) auto
    have "Q y x" using False Cons.prems(4) by simp
    moreover have "\<forall>z\<in>set ys. Q y z" using Cons.prems(2) by simp
    ultimately show ?thesis using False ih by (auto simp: set_insort_key)
  qed
qed

lemma index_of_less_Cons:
  "b \<noteq> x \<Longrightarrow> a \<noteq> x \<Longrightarrow>
     (index_of a (x # xs) < index_of b (x # xs)) = (index_of a xs < index_of b xs)"
  by simp

lemma sort_key_stable_index:
  "distinct xs \<Longrightarrow>
     sorted_wrt (\<lambda>a b. f a = f b \<longrightarrow> index_of a xs < index_of b xs) (sort_key f xs)"
proof (induction xs)
  case Nil
  then show ?case by simp
next
  case (Cons x xs)
  let ?Q = "\<lambda>a b. f a = f b \<longrightarrow> index_of a (x # xs) < index_of b (x # xs)"
  let ?P = "\<lambda>a b. f a = f b \<longrightarrow> index_of a xs < index_of b xs"
  have x: "x \<notin> set xs" and d: "distinct xs" using Cons.prems by simp_all
  have "sorted_wrt ?P (sort_key f xs)" using Cons.IH[OF d] .
  then have q: "sorted_wrt ?Q (sort_key f xs)"
  proof (rule sorted_wrt_mono_rel[rotated])
    fix a b assume "a \<in> set (sort_key f xs)" "b \<in> set (sort_key f xs)" "?P a b"
    then show "?Q a b" using x by auto
  qed
  have "sorted_wrt ?Q (insort_key f x (sort_key f xs))"
  proof (rule sorted_wrt_insort_key[OF _ q])
    show "sorted (map f (sort_key f xs))" by (rule sorted_sort_key)
    show "\<forall>y\<in>set (sort_key f xs). f x \<le> f y \<longrightarrow> ?Q x y" using x by auto
    show "\<forall>y\<in>set (sort_key f xs). \<not> f x \<le> f y \<longrightarrow> ?Q y x" by auto
  qed
  then show ?case by (simp add: sort_key_simps)
qed

lemma index_of_map:
  "inj_on g (set xs) \<Longrightarrow> a \<in> set xs \<Longrightarrow> index_of (g a) (map g xs) = index_of a xs"
proof (induction xs)
  case Nil
  then show ?case by simp
next
  case (Cons x xs)
  show ?case
  proof (cases "a = x")
    case True
    then show ?thesis by simp
  next
    case False
    with Cons.prems have a: "a \<in> set xs" and ne: "g a \<noteq> g x"
      by (auto simp: inj_on_def)
    have "inj_on g (set xs)" using Cons.prems(1) by (simp add: inj_on_def)
    from Cons.IH[OF this a] show ?thesis using False ne by simp
  qed
qed

lemma popular_routes_shape:
  assumes "snd (analyze_popular_routes self data) = Inr rs"
  shows "length rs \<le> 10
    \<and> length rs \<le> card (route_key ` set data)
    \<and> card (route_key ` set data) \<le> card ((\<lambda>f. (origin f, destination f)) ` set data)
    \<and> sorted_wrt (\<lambda>a b. avg_demand b \<le> avg_demand a) rs
    \<and> sorted_wrt (\<lambda>a b. avg_demand a = avg_demand b \<longrightarrow>
          group_position data (route a) < group_position data (route b)) rs"
proof -
  from assms obtain G where
    G: "map_err route_entry_of (route_demand data) = Inr G"
    and rs: "rs = take 10 (sorted_reverse avg_demand G)"
    by (auto simp: analyze_popular_routes_def bind_err_def split: sum.splits)
  let ?S = "sort_key (\<lambda>x. - avg_demand x) G"
  have rs': "rs = take 10 ?S" using rs by (simp add: sorted_reverse_def)
  have routes: "map route G = map fst (route_demand data)" by (rule map_err_routes[OF G])
  have dr: "distinct (map route G)" using route_demand_keys(1)[of data] by (simp only: routes)
  then have dG: "distinct G" and inj: "inj_on route (set G)"
    by (simp_all add: distinct_map)
  have "length G = length (map route G)" by simp
  also have "\<dots> = card (set (map route G))" using dr by (simp only: distinct_card)
  also have "\<dots> = card (route_key ` set data)"
    using route_demand_keys(2)[of data] by (simp only: routes)
  finally have lenG: "length G = card (route_key ` set data)" .
  have c1: "length rs \<le> 10" by (simp add: rs')
  have c2: "length rs \<le> card (route_key ` set data)" using lenG by (simp add: rs')
  have "route_key ` set data =
          (\<lambda>p. fst p @ [CHR '' '', CHR 0xE2, CHR 0x86, CHR 0x92, CHR '' ''] @ snd p)
            ` ((\<lambda>f. (origin f, destination f)) ` set data)"
    by (simp add: image_image route_key_def)
  then have c3: "card (route_key ` set data)
                   \<le> card ((\<lambda>f. (origin f, destination f)) ` set data)"
    by (simp add: card_image_le)
  have "sorted (map (\<lambda>x. - avg_demand x) ?S)" by (rule sorted_sort_key)
  then have "sorted_wrt (\<lambda>a b. avg_demand b \<le> avg_demand a) ?S"
    by (simp add: sorted_map)
  then have c4: "sorted_wrt (\<lambda>a b. avg_demand b \<le> avg_demand a) rs"
    unfolding rs' by (rule sorted_wrt_take)
  have "sorted_wrt (\<lambda>a b. - avg_demand a = - avg_demand b \<longrightarrow> index_of a G < index_of b G) ?S"
    by (rule sort_key_stable_index[OF dG])
  then have "sorted_wrt (\<lambda>a b. avg_demand a = avg_demand b \<longrightarrow>
               group_position data (route a) < group_position data (route b)) ?S"
  proof (rule sorted_wrt_mono_rel[rotated])
    fix a b
    assume a: "a \<in> set ?S" and b: "b \<in> set ?S"
      and ab: "- avg_demand a = - avg_demand b \<longrightarrow> index_of a G < index_of b G"
    have "group_position data (route a) = index_of a G"
      using a index_of_map[OF inj, of a] by (simp add: group_position_def routes[symmetric])
    moreover have "group_position data (route b) = index_of b G"
      using b index_of_map[OF inj, of b] by (simp add: group_position_def routes[symmetric])
    ultimately show "avg_demand a = avg_demand b \<longrightarrow>
               group_position data (route a) < group_position data (route b)"
      using ab by simp
  qed
  then have c5: "sorted_wrt (\<lambda>a b. avg_demand a = avg_demand b \<longrightarrow>
               group_position data (route a) < group_position data (route b)) rs"
    unfolding rs' by (rule sorted_wrt_take)
  from c1 c2 c3 c4 c5 show ?thesis by blast
qed


subsection \<open>When the popular routes are returned\<close>

lemma dict_append_values:
  assumes "\<forall>kv\<in>set kvs. snd kv \<noteq> [] \<and> set (snd kv) \<subseteq> S" and "v \<in> S"
  shows "\<forall>kv\<in>set (dict_append k v kvs). snd kv \<noteq> [] \<and> set (snd kv) \<subseteq> S"
  using assms
proof (induction kvs)
  case Nil
  then show ?case by simp
next
  case (Cons a kvs)
  obtain k' vs where a: "a = (k', vs)" by (cases a)
  from Cons.prems have vs: "vs \<noteq> []" "set vs \<subseteq> S"
    and rest: "\<forall>kv\<in>set kvs. snd kv \<noteq> [] \<and> set (snd kv) \<subseteq> S" by (simp_all add: a)
  from Cons.IH[OF rest Cons.prems(2)] vs rest Cons.prems(2) show ?case
    by (simp add: a)
qed

lemma foldl_dict_append_values:
  assumes "\<forall>kv\<in>set d. snd kv \<noteq> [] \<and> set (snd kv) \<subseteq> vf ` set fs0" and "set fs \<subseteq> set fs0"
  shows "\<forall>kv\<in>set (foldl (\<lambda>d f. dict_append (kf f) (vf f) d) d fs).
           snd kv \<noteq> [] \<and> set (snd kv) \<subseteq> vf ` set fs0"
  using assms
proof (induction fs arbitrary: d)
  case Nil
  then show ?case by simp
next
  case (Cons f fs)
  have "vf f \<in> vf ` set fs0" using Cons.prems(2) by auto
  from dict_append_values[OF Cons.prems(1) this]
  have "\<forall>kv\<in>set (dict_append (kf f) (vf f) d). snd kv \<noteq> [] \<and> set (snd kv) \<subseteq> vf ` set fs0" .
  from Cons.IH[OF this] Cons.prems(2) show ?case by simp
qed

lemma route_demand_values:
  "\<forall>kv\<in>set (route_demand data). snd kv \<noteq> [] \<and> set (snd kv) \<subseteq> demand_score ` set data"
  unfolding route_demand_def by (rule foldl_dict_append_values) simp_all

lemma overflow_threshold: "(of_int (2 ^ 1024 - 2 ^ 970) :: rat) = pow2 1024 - pow2 970"
  by (simp add: pow2_def)

lemma mean_truediv_total:
  assumes "vs \<noteq> []" and "\<forall>v\<in>set vs. \<bar>v\<bar> < 2 ^ 1024 - 2 ^ 970"
  shows "\<exists>q. py_truediv (sum_list vs) (int (length vs)) = Inr q"
proof -
  define M :: int where "M = 2 ^ 1024 - 2 ^ 970 - 1"
  let ?n = "int (length vs)"
  let ?m = "(of_int (sum_list vs) :: rat) / of_int ?n"
  have n: "(0::rat) < of_int ?n" using assms(1) by simp
  have "\<forall>v\<in>set vs. - M \<le> v" and "\<forall>v\<in>set vs. v \<le> M" using assms(2) by (auto simp: M_def)
  then have "- M * ?n \<le> sum_list vs" and "sum_list vs \<le> M * ?n"
    using sum_list_ge[of vs "- M"] sum_list_le[of vs M] by blast+
  then have "(of_int (- M * ?n) :: rat) \<le> of_int (sum_list vs)"
    and "(of_int (sum_list vs) :: rat) \<le> of_int (M * ?n)"
    by (simp_all only: of_int_le_iff)
  then have "- of_int M \<le> ?m" and "?m \<le> of_int M"
    using n by (simp_all add: pos_le_divide_eq pos_divide_le_eq)
  then have "\<bar>?m\<bar> \<le> of_int M" by simp
  also have "(of_int M :: rat) < of_int (2 ^ 1024 - 2 ^ 970)"
    by (simp only: of_int_less_iff M_def)
  finally have "\<bar>?m\<bar> < pow2 1024 - pow2 970" by (simp only: overflow_threshold)
  then have "\<bar>fl ?m\<bar> < pow2 1024" by (rule fl_abs_below_overflow)
  then have "\<not> 2 ^ 1024 \<le> \<bar>fl ?m\<bar>" by (simp add: pow2_def)
  moreover have "?n \<noteq> 0" using assms(1) by simp
  ultimately show ?thesis by (simp add: py_truediv_def Let_def)
qed

lemma map_err_total:
  "\<forall>x\<in>set xs. \<exists>y. f x = Inr y \<Longrightarrow> \<exists>ys. map_err f xs = Inr ys"
  by (induction xs) (auto simp: bind_err_def)

lemma popular_routes_total:
  assumes "\<forall>f\<in>set data. \<bar>demand_score f\<bar> < 2 ^ 1024 - 2 ^ 970"
  shows "\<exists>rs. snd (analyze_popular_routes self data) = Inr rs"
proof -
  have "\<forall>kv\<in>set (route_demand data). \<exists>e. route_entry_of kv = Inr e"
  proof
    fix kv assume kv: "kv \<in> set (route_demand data)"
    then have ne: "snd kv \<noteq> []" and sub: "set (snd kv) \<subseteq> demand_score ` set data"
      using route_demand_values[of data] by auto
    have "\<forall>v\<in>set (snd kv). \<bar>v\<bar> < 2 ^ 1024 - 2 ^ 970" using sub assms by auto
    from mean_truediv_total[OF ne this] show "\<exists>e. route_entry_of kv = Inr e"
      by (auto simp: route_entry_of_def bind_err_def)
  qed
  then obtain G where "map_err route_entry_of (route_demand data) = Inr G"
    using map_err_total by blast
  then show ?thesis by (simp add: analyze_popular_routes_def bind_err_def)
qed

text \<open>
  C7 (as amended). When every demand score is an integer of magnitude below
  \<open>2^1024 - 2^970\<close>, so that no mean leaves the range of the floats,
  \<^verbatim>\<open>analyze_popular_routes\<close> returns a list; the list has at most 10 entries and at
  most as many as there are distinct route keys, which are at most as many as the
  distinct (origin, destination) pairs; its entries are in non-increasing order of
  \<^verbatim>\<open>avg_demand\<close>, and entries with equal \<^verbatim>\<open>avg_demand\<close> keep the order in which their
  groups are iterated.
\<close>

theorem C7_popular_routes:
  assumes "\<forall>f\<in>set data. \<bar>demand_score f\<bar> < 2 ^ 1024 - 2 ^ 970"
  shows "\<exists>rs. snd (analyze_popular_routes self data) = Inr rs
    \<and> length rs \<le> 10
    \<and> length rs \<le> card (route_key ` set data)
    \<and> card (route_key ` set data) \<le> card ((\<lambda>f. (origin f, destination f)) ` set data)
    \<and> sorted_wrt (\<lambda>a b. avg_demand b \<le> avg_demand a) rs
    \<and> sorted_wrt (\<lambda>a b. avg_demand a = avg_demand b \<longrightarrow>
          group_position data (route a) < group_position data (route b)) rs"
proof -
  from popular_routes_total[OF assms] obtain rs where
    rs: "snd (analyze_popular_routes self data) = Inr rs" by blast
  from popular_routes_shape[OF rs] rs show ?thesis by blast
qed

lemma popular_routes_example:
  "snd (analyze_popular_routes init_processor
          [example_flight\<lparr>demand_score := 50\<rparr>,
           example_flight\<lparr>destination := ''Perth'', demand_score := 70\<rparr>,
           example_flight\<lparr>demand_score := 60\<rparr>]) =
     Inr [\<lparr>route = ''Sydney'' @ [CHR '' '', CHR 0xE2, CHR 0x86, CHR 0x92, CHR '' ''] @ ''Perth'',
           avg_demand = 70, flight_count = 1\<rparr>,
          \<lparr>route = ''Sydney'' @ [CHR '' '', CHR 0xE2, CHR 0x86, CHR 0x92, CHR '' ''] @ ''Melbourne'',
           avg_demand = 55, flight_count = 2\<rparr>]"
  by (simp add: analyze_popular_routes_def route_demand_def route_key_def example_flight_def
      route_entry_of_def py_truediv_def py_round_def bind_err_def sorted_reverse_def
      fl_numeral round_half_even_numeral)


lemma example_demands_small:
  "\<forall>f\<in>set [example_flight\<lparr>demand_score := 50\<rparr>,
             example_flight\<lparr>destination := ''Perth'', demand_score := 70\<rparr>,
             example_flight\<lparr>demand_score := 60\<rparr>]. \<bar>demand_score f\<bar> < 2 ^ 1024 - 2 ^ 970"
  by simp

theorem C7_popular_routes_witness:
  "\<bar>demand_score (example_flight\<lparr>demand_score := 50\<rparr>)\<bar> < 2 ^ 1024 - 2 ^ 970
   \<and> \<bar>demand_score (example_flight\<lparr>destination := ''Perth'', demand_score := 70\<rparr>)\<bar>
       < 2 ^ 1024 - 2 ^ 970
   \<and> \<bar>demand_score (example_flight\<lparr>demand_score := 60\<rparr>)\<bar> < 2 ^ 1024 - 2 ^ 970
   \<and> snd (analyze_popular_routes init_processor
          [example_flight\<lparr>demand_score := 50\<rparr>,
           example_flight\<lparr>destination := ''Perth'', demand_score := 70\<rparr>,
           example_flight\<lparr>demand_score := 60\<rparr>]) =
     Inr [\<lparr>route = ''Sydney'' @ [CHR '' '', CHR 0xE2, CHR 0x86, CHR 0x92, CHR '' ''] @ ''Perth'',
           avg_demand = 70, flight_count = 1\<rparr>,
          \<lparr>route = ''Sydney'' @ [CHR '' '', CHR 0xE2, CHR 0x86, CHR 0x92, CHR '' ''] @ ''Melbourne'',
           avg_demand = 55, flight_count = 2\<rparr>]
   \<and> 2 \<le> card (route_key `
        set [example_flight\<lparr>demand_score := 50\<rparr>,
             example_flight\<lparr>destination := ''Perth'', demand_score := 70\<rparr>,
             example_flight\<lparr>demand_score := 60\<rparr>])"
  using popular_routes_example
    C7_popular_routes[OF example_demands_small, of init_processor]
  by simp

lemma truediv_overflow: "py_truediv (2 ^ 1024) 1 = Inl OverflowError"
proof -
  have "(of_int (2 ^ 1024) :: rat) / of_int 1 = pow2 1024" by (simp add: pow2_def)
  moreover have "pow2 1024 \<le> \<bar>fl (pow2 1024)\<bar>" using fl_pow2_1024 by simp
  moreover have "(2 ^ 1024 :: rat) = pow2 1024" by (simp add: pow2_def)
  ultimately show ?thesis by (simp only: py_truediv_def Let_def) simp
qed

text \<open>
  C7 as stated fails beyond the range of the floats: for a single record with the
  demand score \<open>2^1024\<close> the mean cannot be converted and \<^verbatim>\<open>analyze_popular_routes\<close>
  raises \<^verbatim>\<open>OverflowError\<close> instead of returning a list.
\<close>

theorem C7_counterexample:
  "snd (analyze_popular_routes init_processor [example_flight\<lparr>demand_score := 2 ^ 1024\<rparr>])
     = Inl OverflowError"
  using truediv_overflow
  by (simp add: analyze_popular_routes_def route_demand_def route_entry_of_def bind_err_def)

subsection \<open>The weekend price\<close>

lemma rhe_near: "of_int N - 1 / 2 < y \<Longrightarrow> N \<le> round_half_even y"
proof (cases "of_int N \<le> y")
  case True
  then show ?thesis by (rule rhe_ge)
next
  case False
  assume lo: "of_int N - 1 / 2 < y"
  have "\<lfloor>y\<rfloor> = N - 1" using False lo by (intro floor_unique) auto
  then show ?thesis using lo by (simp add: round_half_even_def Let_def)
qed

lemma fl_12_10: "fl (12 / 10) = 5404319552844595 / 4503599627370496"
  by code_simp

lemma weekend_price:
  assumes "1 \<le> b" and "b \<le> 2 ^ 40"
  shows "py_int (fl (of_int b * (5404319552844595 / 4503599627370496))) = 6 * b div 5"
proof -
  define c :: rat where "c = 5404319552844595 / 4503599627370496"
  define x where "x = of_int b * c"
  define n where "n = 6 * b div 5"
  define e where "e = binade x"
  define p where "p = pow2 (e - 52)"
  have b1: "(1::rat) \<le> of_int b" using assms(1) by simp
  have "(of_int b :: rat) \<le> of_int (2 ^ 40)" using assms(2) by (simp only: of_int_le_iff)
  then have b2: "(of_int b :: rat) \<le> 2 ^ 40" by simp
  have c1: "1 \<le> c" and c2: "c < 2" and c45: "4 / 5 \<le> c" by (simp_all add: c_def)
  have x_eq: "x = 6 * of_int b / 5 - of_int b / (5 * 2 ^ 52)" by (simp add: x_def c_def)
  have x1: "1 \<le> x" using b1 c1 mult_mono[of 1 "of_int b" 1 c] by (simp add: x_def)
  then have xpos: "0 < x" by simp
  have "x \<le> 2 ^ 40 * c" using b2 c1 by (simp add: x_def mult_right_mono)
  also have "\<dots> < 2 ^ 41" using c2 by simp
  finally have xlt: "x < 2 ^ 41" .
  have e_lo: "pow2 e \<le> x" and e_hi: "x < pow2 (e + 1)"
    using binade_bounds[OF xpos] by (simp_all add: e_def)
  have e0: "0 \<le> e"
  proof (rule ccontr)
    assume "\<not> 0 \<le> e"
    then have "e + 1 \<le> 0" by simp
    then have "pow2 (e + 1) \<le> pow2 0" by (rule pow2_mono)
    then show False using e_hi x1 by (simp add: pow2_def)
  qed
  have e40: "e \<le> 40"
  proof (rule ccontr)
    assume "\<not> e \<le> 40"
    then have "41 \<le> e" by simp
    then have "pow2 41 \<le> pow2 e" by (rule pow2_mono)
    then show False using e_lo xlt by (simp add: pow2_def)
  qed
  have s_eq: "max (binade x - 52) (- 1074) = e - 52" using e0 by (simp add: e_def)
  have ppos: "0 < p" by (simp add: p_def pow2_pos)
  have fl_x: "fl x = of_int (round_half_even (x / p)) * p"
    by (simp add: fl_pos[OF xpos] s_eq p_def)
  have n_lo: "5 * n \<le> 6 * b" and n_hi: "6 * b \<le> 5 * n + 4"
    by (simp_all add: n_def)
  have "(of_int (5 * n) :: rat) \<le> of_int (6 * b)" using n_lo by (simp only: of_int_le_iff)
  then have nl: "(of_int n :: rat) \<le> 6 * of_int b / 5" by simp
  have "(of_int (6 * b) :: rat) \<le> of_int (5 * n + 4)" using n_hi by (simp only: of_int_le_iff)
  then have nh: "6 * of_int b / 5 \<le> (of_int n :: rat) + 4 / 5" by simp
  have n1: "1 \<le> n" using assms(1) unfolding n_def by presburger
  \<comment> \<open>the grid of \<open>x\<close> contains the integers and the eighths\<close>
  have p8: "p * 2 ^ nat (49 - e) = 1 / 8"
  proof -
    have "p * pow2 (49 - e) = pow2 (- 3)" by (simp add: p_def pow2_add[symmetric])
    then show ?thesis using e40 by (simp add: pow2_def)
  qed
  have p1: "p * 2 ^ nat (52 - e) = 1"
  proof -
    have "p * pow2 (52 - e) = pow2 0" by (simp add: p_def pow2_add[symmetric])
    then show ?thesis using e40 by (simp add: pow2_def)
  qed
  \<comment> \<open>upper bound\<close>
  define K where "K = (8 * n + 7) * 2 ^ nat (49 - e)"
  have Kp: "of_int K * p = of_int n + 7 / 8"
  proof -
    have "of_int K * p = (8 * of_int n + 7) * (p * 2 ^ nat (49 - e))"
      by (simp add: K_def mult.assoc mult.commute)
    then show ?thesis by (simp add: p8)
  qed
  have "x \<le> 6 * of_int b / 5" using b1 by (simp add: x_eq)
  then have "x \<le> of_int K * p" using nh by (simp add: Kp)
  then have "fl x \<le> of_int K * p"
    using fl_upper_grid[OF xpos, of K] by (simp add: s_eq p_def)
  then have up: "fl x < of_int n + 1" by (simp add: Kp)
  \<comment> \<open>lower bound\<close>
  define N where "N = n * 2 ^ nat (52 - e)"
  have Np: "of_int N * p = of_int n"
  proof -
    have "of_int N * p = of_int n * (p * 2 ^ nat (52 - e))"
      by (simp add: N_def mult.assoc mult.commute)
    then show ?thesis by (simp add: p1)
  qed
  have "of_int n - x \<le> of_int b / (5 * 2 ^ 52)" using nl by (simp add: x_eq)
  also have "\<dots> \<le> x / 2 ^ 54"
  proof -
    have "of_int b * (4 / 5) \<le> of_int b * c" using c45 b1 by (simp add: mult_left_mono)
    then show ?thesis by (simp add: x_def)
  qed
  also have "\<dots> < pow2 (e + 1) / 2 ^ 54" using e_hi by (simp add: divide_strict_right_mono)
  also have "\<dots> = p / 2"
  proof -
    have "p * pow2 53 = pow2 (e - 52 + 53)" unfolding p_def by (rule pow2_add[symmetric])
    moreover have "e - 52 + 53 = e + 1" by simp
    ultimately have "pow2 (e + 1) = p * pow2 53" by simp
    moreover have "pow2 53 = 2 ^ 53" by (simp add: pow2_def)
    ultimately show ?thesis by simp
  qed
  finally have "of_int N * p - p / 2 < x" by (simp add: Np)
  then have "(of_int N - 1 / 2) * p < x" by (simp add: algebra_simps)
  then have "of_int N - 1 / 2 < x / p" using ppos by (simp add: pos_less_divide_eq)
  then have "N \<le> round_half_even (x / p)" by (rule rhe_near)
  then have "(of_int N :: rat) \<le> of_int (round_half_even (x / p))" by (simp only: of_int_le_iff)
  then have "of_int N * p \<le> fl x" using ppos by (simp add: fl_x mult_right_mono)
  then have lo: "of_int n \<le> fl x" by (simp add: Np)
  have "(0::rat) \<le> of_int n" using n1 by simp
  then have "0 \<le> fl x" using lo by linarith
  moreover have "\<lfloor>fl x\<rfloor> = n" using lo up by (intro floor_unique) auto
  ultimately have "py_int (fl x) = n" by (simp add: py_int_def)
  then show ?thesis by (simp add: x_def c_def n_def)
qed

subsection \<open>The generated records\<close>

lemma randint_range:
  assumes "randint a b g = Some (v, g')"
  shows "a \<le> v \<and> v \<le> b"
proof -
  from assms obtain r where ab: "a \<le> b" and v: "v = a + int (r mod nat (b - a + 1))"
    by (auto simp: randint_def split: list.splits if_splits)
  have "r mod nat (b - a + 1) < nat (b - a + 1)" using ab by simp
  then have "int (r mod nat (b - a + 1)) < b - a + 1" using ab by linarith
  then show ?thesis using v by simp
qed

lemma stored_price_weekday:
  "\<not> 5 \<le> weekday d \<Longrightarrow> \<bar>b\<bar> \<le> 2 ^ 53 \<Longrightarrow> stored_price b d = b"
  by (simp add: stored_price_def weekend_multiplier_def fl_of_int py_int_def)

lemma stored_price_weekend:
  assumes "5 \<le> weekday d" and "1 \<le> b" and "b \<le> 2 ^ 40"
  shows "stored_price b d = 6 * b div 5"
proof -
  have "\<bar>b\<bar> \<le> 2 ^ 53" using assms(2,3) by simp
  then have flb: "fl (of_int b) = of_int b" by (rule fl_of_int)
  have "stored_price b d = py_int (fl (fl (of_int b) * fl (12 / 10)))"
    using assms(1) by (simp only: stored_price_def weekend_multiplier_def if_True)
  also have "\<dots> = py_int (fl (of_int b * (5404319552844595 / 4503599627370496)))"
    by (simp only: flb fl_12_10)
  also have "\<dots> = 6 * b div 5" by (rule weekend_price[OF assms(2,3)])
  finally show ?thesis .
qed

lemma stored_price_cases:
  assumes "150 \<le> b" and "b \<le> 2500"
  shows "stored_price b d = (if 5 \<le> weekday d then 6 * b div 5 else b)"
proof (cases "5 \<le> weekday d")
  case True
  then show ?thesis using stored_price_weekend[OF True, of b] assms by simp
next
  case False
  then show ?thesis using stored_price_weekday[OF False, of b] assms by simp
qed

lemma next_route_draws:
  assumes "next_route today g = Some (r, g')"
  shows "\<exists>d. draw_route g = Some (d, g')
    \<and> origin r = origin_draw d \<and> destination r = destination_draw d
    \<and> is_domestic r = (destination_draw d \<in> set (take 10 cities))
    \<and> 1 \<le> date_offset_draw d \<and> date_offset_draw d \<le> 90
    \<and> date r = today + date_offset_draw d
    \<and> (if is_domestic r then 150 \<le> base_price_draw d \<and> base_price_draw d \<le> 400
        else 800 \<le> base_price_draw d \<and> base_price_draw d \<le> 2500)
    \<and> price r = (if 5 \<le> weekday (date r) then 6 * base_price_draw d div 5
                 else base_price_draw d)"
proof -
  from assms obtain orig g1 dest0 g2 dest g3 base g4 off g5 dem g6 av g7 line where
    c1: "choice (take 10 cities) g = Some (orig, g1)"
    and c2: "choice cities g1 = Some (dest0, g2)"
    and c3: "redraw orig dest0 g2 = Some (dest, g3)"
    and base: "(if dest \<in> set (take 10 cities) then randint 150 400 g3 else randint 800 2500 g3)
             = Some (base, g4)"
    and off: "randint 1 90 g4 = Some (off, g5)"
    and c6: "randint 30 100 g5 = Some (dem, g6)"
    and c7: "randint 10 200 g6 = Some (av, g7)"
    and c8: "choice airlines g7 = Some (line, g')"
    and r: "r = \<lparr>origin = orig, destination = dest, price = stored_price base (today + off),
                 date = today + off, demand_score = dem, availability = av,
                 is_domestic = (dest \<in> set (take 10 cities)), airline = line\<rparr>"
    by (auto simp: next_route_def Let_def split: bind_splits)
  let ?d = "\<lparr>origin_draw = orig, destination_draw = dest, base_price_draw = base,
             date_offset_draw = off, demand_draw = dem, availability_draw = av,
             airline_draw = line\<rparr>"
  have d: "draw_route g = Some (?d, g')"
    by (simp add: draw_route_def c1 c2 c3 base off c6 c7 c8)
  have o: "1 \<le> off \<and> off \<le> 90" using off by (rule randint_range)
  have b: "if dest \<in> set (take 10 cities) then 150 \<le> base \<and> base \<le> 400
           else 800 \<le> base \<and> base \<le> 2500"
    using base randint_range[of 150 400 g3 base g4] randint_range[of 800 2500 g3 base g4]
    by (auto split: if_splits)
  then have "150 \<le> base" and "base \<le> 2500" by (auto split: if_splits)
  then have p: "stored_price base (today + off)
                  = (if 5 \<le> weekday (today + off) then 6 * base div 5 else base)"
    by (rule stored_price_cases)
  show ?thesis
    by (rule exI[of _ ?d]) (use d o b p in \<open>simp add: r\<close>)
qed

lemma gen_routes_draws:
  assumes "gen_routes n today g = Some (rs, g')"
  shows "\<exists>ds. gen_draws n g = Some (ds, g')
    \<and> list_all2 (\<lambda>r d.
         origin r = origin_draw d \<and> destination r = destination_draw d
         \<and> is_domestic r = (destination_draw d \<in> set (take 10 cities))
         \<and> 1 \<le> date_offset_draw d \<and> date_offset_draw d \<le> 90
         \<and> date r = today + date_offset_draw d
         \<and> (if is_domestic r then 150 \<le> base_price_draw d \<and> base_price_draw d \<le> 400
             else 800 \<le> base_price_draw d \<and> base_price_draw d \<le> 2500)
         \<and> price r = (if 5 \<le> weekday (date r) then 6 * base_price_draw d div 5
                      else base_price_draw d)) rs ds"
  using assms
proof (induction n arbitrary: g rs)
  case 0
  then show ?case by simp
next
  case (Suc n)
  from Suc.prems obtain r0 g1 rs' where
    r0: "next_route today g = Some (r0, g1)"
    and rest: "gen_routes n today g1 = Some (rs', g')"
    and rs: "rs = r0 # rs'"
    by (auto split: bind_splits)
  from next_route_draws[OF r0] obtain d where d: "draw_route g = Some (d, g1)"
    and pd: "origin r0 = origin_draw d \<and> destination r0 = destination_draw d
    \<and> is_domestic r0 = (destination_draw d \<in> set (take 10 cities))
    \<and> 1 \<le> date_offset_draw d \<and> date_offset_draw d \<le> 90
    \<and> date r0 = today + date_offset_draw d
    \<and> (if is_domestic r0 then 150 \<le> base_price_draw d \<and> base_price_draw d \<le> 400
        else 800 \<le> base_price_draw d \<and> base_price_draw d \<le> 2500)
    \<and> price r0 = (if 5 \<le> weekday (date r0) then 6 * base_price_draw d div 5
                 else base_price_draw d)"
    by blast
  from Suc.IH[OF rest] obtain ds where ds: "gen_draws n g1 = Some (ds, g')"
    and pds: "list_all2 (\<lambda>r d.
         origin r = origin_draw d \<and> destination r = destination_draw d
         \<and> is_domestic r = (destination_draw d \<in> set (take 10 cities))
         \<and> 1 \<le> date_offset_draw d \<and> date_offset_draw d \<le> 90
         \<and> date r = today + date_offset_draw d
         \<and> (if is_domestic r then 150 \<le> base_price_draw d \<and> base_price_draw d \<le> 400
             else 800 \<le> base_price_draw d \<and> base_price_draw d \<le> 2500)
         \<and> price r = (if 5 \<le> weekday (date r) then 6 * base_price_draw d div 5
                      else base_price_draw d)) rs' ds"
    by blast
  have "gen_draws (Suc n) g = Some (d # ds, g')" by (simp add: d ds)
  then show ?case using pd pds rs by (intro exI[of _ "d # ds"]) simp
qed

lemma next_route_example:
  "next_route 739926 ([0, 0, 1, 3, 0, 0, 0, 0] @ g) =
     Some (\<lparr>origin = ''Sydney'', destination = ''Melbourne'', price = 183, date = 739927,
              demand_score = 30, availability = 10, is_domestic = True,
              airline = ''Qantas''\<rparr>, g)"
  by (simp add: next_route_def choice_def randint_def cities_def airlines_def
      stored_price_cases weekday_def)

lemma draw_route_example:
  "draw_route ([0, 0, 1, 3, 0, 0, 0, 0] @ g) =
     Some (\<lparr>origin_draw = ''Sydney'', destination_draw = ''Melbourne'',
            base_price_draw = 153, date_offset_draw = 1, demand_draw = 30,
            availability_draw = 10, airline_draw = ''Qantas''\<rparr>, g)"
  by (simp add: draw_route_def choice_def randint_def cities_def airlines_def)

lemma gen_routes_replicate:
  assumes "\<And>g. next_route today (ds @ g) = Some (r, g)"
  shows "gen_routes n today (concat (replicate n ds) @ g) = Some (replicate n r, g)"
  by (induction n) (simp_all add: assms)

lemma gen_draws_replicate:
  assumes "\<And>g. draw_route (ds @ g) = Some (d, g)"
  shows "gen_draws n (concat (replicate n ds) @ g) = Some (replicate n d, g)"
  by (induction n) (simp_all add: assms)

lemma generate_sample_data_example:
  "snd (generate_sample_data self 739926 (concat (replicate 100 [0, 0, 1, 3, 0, 0, 0, 0]))) =
     Some (replicate 100
             \<lparr>origin = ''Sydney'', destination = ''Melbourne'', price = 183, date = 739927,
              demand_score = 30, availability = 10, is_domestic = True,
              airline = ''Qantas''\<rparr>, [])"
  using gen_routes_replicate[of 739926 "[0, 0, 1, 3, 0, 0, 0, 0]" _ 100 "[]",
          OF next_route_example]
  by (simp add: generate_sample_data_def)

lemma gen_draws_example:
  "gen_draws 100 (concat (replicate 100 [0, 0, 1, 3, 0, 0, 0, 0])) =
     Some (replicate 100
             \<lparr>origin_draw = ''Sydney'', destination_draw = ''Melbourne'',
              base_price_draw = 153, date_offset_draw = 1, demand_draw = 30,
              availability_draw = 10, airline_draw = ''Qantas''\<rparr>, [])"
  using gen_draws_replicate[of "[0, 0, 1, 3, 0, 0, 0, 0]" _ 100 "[]", OF draw_route_example]
  by simp

text \<open>
  C3 (as amended). The records that \<^verbatim>\<open>generate_sample_data\<close> returns are, one by one,
  built from the draws of the 100 passes of its loop: the flight date is today plus the
  offset drawn, which is 1 to 90 days; the base price drawn is in [150, 400] for a
  domestic destination and in [800, 2500] otherwise; and the stored price is that base
  price multiplied by 1.2 and truncated, \<open>\<lfloor>6 * base / 5\<rfloor>\<close>, when the flight date is
  a Saturday or a Sunday, and that base price itself on the other days.
\<close>

theorem C3_generated_price:
  assumes "snd (generate_sample_data self today g) = Some (rs, g')"
  shows "\<exists>ds. gen_draws 100 g = Some (ds, g')
    \<and> list_all2 (\<lambda>r d.
         origin r = origin_draw d \<and> destination r = destination_draw d
         \<and> is_domestic r = (destination_draw d \<in> set (take 10 cities))
         \<and> 1 \<le> date_offset_draw d \<and> date_offset_draw d \<le> 90
         \<and> date r = today + date_offset_draw d
         \<and> (if is_domestic r then 150 \<le> base_price_draw d \<and> base_price_draw d \<le> 400
             else 800 \<le> base_price_draw d \<and> base_price_draw d \<le> 2500)
         \<and> price r = (if 5 \<le> weekday (date r) then 6 * base_price_draw d div 5
                      else base_price_draw d)) rs ds"
proof -
  have "gen_routes 100 today g = Some (rs, g')"
    using assms by (simp add: generate_sample_data_def)
  then show ?thesis by (rule gen_routes_draws)
qed

theorem C3_generated_price_witness:
  "snd (generate_sample_data init_processor 739926 (concat (replicate 100 [0, 0, 1, 3, 0, 0, 0, 0]))) =
     Some (replicate 100
             \<lparr>origin = ''Sydney'', destination = ''Melbourne'', price = 183, date = 739927,
              demand_score = 30, availability = 10, is_domestic = True,
              airline = ''Qantas''\<rparr>, [])
   \<and> gen_draws 100 (concat (replicate 100 [0, 0, 1, 3, 0, 0, 0, 0])) =
     Some (replicate 100
             \<lparr>origin_draw = ''Sydney'', destination_draw = ''Melbourne'',
              base_price_draw = 153, date_offset_draw = 1, demand_draw = 30,
              availability_draw = 10, airline_draw = ''Qantas''\<rparr>, [])
   \<and> 5 \<le> weekday 739927 \<and> 6 * 153 div 5 = (183 :: int)"
proof -
  from C3_generated_price[OF generate_sample_data_example[of init_processor]]
  obtain ds where "gen_draws 100 (concat (replicate 100 [0, 0, 1, 3, 0, 0, 0, 0])) = Some (ds, [])"
    by blast
  then show ?thesis
    using generate_sample_data_example[of init_processor] gen_draws_example
    by (simp add: weekday_def)
qed

lemma round_example: "round (153 * (12 / 10) :: rat) = (184 :: int)"
  unfolding round_def by (rule floor_unique) simp_all

text \<open>
  C3 as stated fails: the base price drawn in every pass is 153 and the flight date is
  a Saturday, and the price stored in every one of the 100 records is 183, the product
  183.6 truncated, and not 184, the product rounded to the nearest integer.
\<close>

theorem C3_counterexample:
  "snd (generate_sample_data init_processor 739926 (concat (replicate 100 [0, 0, 1, 3, 0, 0, 0, 0]))) =
     Some (replicate 100
             \<lparr>origin = ''Sydney'', destination = ''Melbourne'', price = 183, date = 739927,
              demand_score = 30, availability = 10, is_domestic = True,
              airline = ''Qantas''\<rparr>, [])
   \<and> gen_draws 100 (concat (replicate 100 [0, 0, 1, 3, 0, 0, 0, 0])) =
     Some (replicate 100
             \<lparr>origin_draw = ''Sydney'', destination_draw = ''Melbourne'',
              base_price_draw = 153, date_offset_draw = 1, demand_draw = 30,
              availability_draw = 10, airline_draw = ''Qantas''\<rparr>, [])
   \<and> weekday 739927 = 5
   \<and> round (153 * (12 / 10) :: rat) = (184 :: int)"
  using generate_sample_data_example[of init_processor] gen_draws_example round_example
  by (simp add: weekday_def)

section \<open>The analyzers of Api_Integration.py: properties\<close>

lemma assess_cases:
  "(\<exists>q. assess_data_quality zero_by_zero flight_data = Inr q
        \<and> 0 \<le> quality_score q \<and> quality_score q \<le> 100)
   \<or> (flight_data \<noteq> [] \<and> columns flight_data = []
        \<and> (\<exists>e. zero_by_zero = Inl e \<and> assess_data_quality zero_by_zero flight_data = Inl e))"
proof (cases "flight_data = []")
  case True
  then show ?thesis by (simp add: assess_data_quality_def)
next
  case ne: False
  show ?thesis
  proof (cases "length flight_data * length (columns flight_data) = 0")
    case False
    then show ?thesis using ne
      by (auto simp: assess_data_quality_def Let_def bind_err_def completeness_of_def)
  next
    case True
    then have cols: "columns flight_data = []" using ne by simp
    show ?thesis
    proof (cases zero_by_zero)
      case (Inl e)
      then show ?thesis using ne cols
        by (auto simp: assess_data_quality_def Let_def bind_err_def completeness_of_def)
    next
      case (Inr c)
      then show ?thesis using ne cols
        by (auto simp: assess_data_quality_def Let_def bind_err_def completeness_of_def)
    qed
  qed
qed

text \<open>
  C4. Whatever the record list (empty or not, with any required field absent and any
  cell null), \<^verbatim>\<open>_assess_data_quality\<close> returns a quality score in the closed interval
  from 0 to 100. The one way it returns nothing is the division of zero by zero for the
  completeness of a non-empty list of records without any field, and only if that
  division raises.
\<close>

theorem C4_quality_score_range:
  "(\<forall>q. assess_data_quality zero_by_zero flight_data = Inr q
        \<longrightarrow> 0 \<le> quality_score q \<and> quality_score q \<le> 100)
   \<and> (flight_data = [] \<or> columns flight_data \<noteq> [] \<or> (\<exists>c. zero_by_zero = Inr c)
        \<longrightarrow> (\<exists>q. assess_data_quality zero_by_zero flight_data = Inr q
               \<and> 0 \<le> quality_score q \<and> quality_score q \<le> 100))"
  using assess_cases[of zero_by_zero flight_data] by auto

lemma example_columns:
  "columns [[(''origin'', StrCell ''SYD''), (''price'', IntCell 299)],
            [(''origin'', StrCell ''MEL''), (''price'', IntCell 190)],
            [(''price'', Null)]] = [''origin'', ''price'']"
  by (simp add: columns_def)

lemma quality_example:
  "quality_score (projr (assess_data_quality (Inl ZeroDivisionError)
         [[(''origin'', StrCell ''SYD''), (''price'', IntCell 299)],
          [(''origin'', StrCell ''MEL''), (''price'', IntCell 190)],
          [(''price'', Null)]])) = 48"
  by (simp add: assess_data_quality_def Let_def bind_err_def completeness_of_def example_columns
      required_fields_def null_counts_def series_def cell_at_def is_null_def)

theorem C4_quality_score_range_witness:
  "columns [[(''origin'', StrCell ''SYD''), (''price'', IntCell 299)],
            [(''origin'', StrCell ''MEL''), (''price'', IntCell 190)],
            [(''price'', Null)]] \<noteq> []
   \<and> (\<exists>q. assess_data_quality (Inl ZeroDivisionError)
         [[(''origin'', StrCell ''SYD''), (''price'', IntCell 299)],
          [(''origin'', StrCell ''MEL''), (''price'', IntCell 190)],
          [(''price'', Null)]] = Inr q
       \<and> quality_score q = 48 \<and> 0 \<le> quality_score q \<and> quality_score q \<le> 100)"
proof -
  let ?d = "[[(''origin'', StrCell ''SYD''), (''price'', IntCell 299)],
             [(''origin'', StrCell ''MEL''), (''price'', IntCell 190)],
             [(''price'', Null)]]"
  have cols: "columns ?d \<noteq> []" by (simp add: example_columns)
  with C4_quality_score_range[of "Inl ZeroDivisionError" ?d] obtain q where
    q: "assess_data_quality (Inl ZeroDivisionError) ?d = Inr q"
    and r: "0 \<le> quality_score q" "quality_score q \<le> 100" by blast
  from quality_example q have "quality_score q = 48" by simp
  with cols q r show ?thesis by blast
qed




lemma price_column_eq:
  assumes "length d = length d'" and "series d ''price'' = series d' ''price''"
    and "(''price'' \<in> set (columns d)) = (''price'' \<in> set (columns d'))"
  shows "generate_mock_insights self d = generate_mock_insights self' d'"
proof -
  have "(d = []) = (d' = [])" using assms(1) by auto
  then show ?thesis using assms
    by (simp add: generate_mock_insights_def price_average_def)
qed

text \<open>
  C8. \<^verbatim>\<open>_generate_mock_insights\<close> is a function of the record list alone: it reads
  neither the analyzer nor anything outside, so two calls with one list give one
  result. Of the list it reads only the number of records and the price column: lists
  that agree on these give the same bundle, the same numbers in the sentences about
  prices and the same fixed sentences.
\<close>

theorem C8_mock_insights_deterministic:
  "generate_mock_insights self flight_data = generate_mock_insights self' flight_data
   \<and> (length flight_data = length flight_data'
        \<and> series flight_data ''price'' = series flight_data' ''price''
        \<and> (''price'' \<in> set (columns flight_data)) = (''price'' \<in> set (columns flight_data'))
      \<longrightarrow> generate_mock_insights self flight_data = generate_mock_insights self' flight_data')"
  using price_column_eq[of flight_data flight_data self self']
    price_column_eq[of flight_data flight_data' self self']
  by blast

lemma example_row_facts:
  "length [example_row ''Sydney''] = length [example_row ''Perth'']"
  "series [example_row ''Sydney''] ''price'' = series [example_row ''Perth''] ''price''"
  "(''price'' \<in> set (columns [example_row ''Sydney'']))
     = (''price'' \<in> set (columns [example_row ''Perth'']))"
  "[example_row ''Sydney''] \<noteq> [example_row ''Perth'']"
  by (simp_all add: example_row_def series_def cell_at_def columns_def)

theorem C8_mock_insights_deterministic_witness:
  "[example_row ''Sydney''] \<noteq> [example_row ''Perth'']
   \<and> generate_mock_insights keyed_analyzer [example_row ''Sydney'']
       = generate_mock_insights (init_analyzer None None) [example_row ''Perth'']"
  using example_row_facts
    C8_mock_insights_deterministic[of keyed_analyzer "[example_row ''Sydney'']"
      "init_analyzer None None" "[example_row ''Perth'']"]
  by blast









end
